theory Spec2Isabelle
  imports Complex_Main
begin

section \<open>The soccer predictor service (src/main.py)\<close>

text \<open>
  The service stores Elo-style team ratings in a document store and turns two ratings plus
  the live match state into a probability triple. Python's \<^verbatim>\<open>float\<close> is modelled
  by \<^typ>\<open>real\<close>: arithmetic is exact, so binary rounding error is outside this model. What
  the floating-point range does to control flow is kept: \<^verbatim>\<open>math.exp\<close> raises
  \<^verbatim>\<open>OverflowError\<close> when its result is larger than the largest finite double, and
  that raise is a branch of the model. Python's \<^verbatim>\<open>int\<close> is \<^typ>\<open>int\<close>, and an
  integer enters the float arithmetic as the real number it is. Silent underflow, infinities
  and the conversion of integers beyond the double range are outside the model.

  The exact model is used for properties that hold of the program up to its rounding: sums
  and formulas within a tolerance, bounds with a margin, and order between values rounded
  to a few decimals. It is not used for a strict inequality that one rounding can turn
  into an equality: the exact logistic lies strictly between 0 and 1 and is strictly
  increasing, while the program's logistic returns exactly 1.0 from an argument of about
  36.7 on. For the one property of that kind, the bound on the draw probability, the draw
  stage has a second model in double precision, further down.
\<close>

subsection \<open>Errors\<close>

text \<open>
  \<^verbatim>\<open>HTTPException(500, "Database not configured")\<close> is \<open>StoreUnavailable\<close>,
  \<^verbatim>\<open>HTTPException(400, "Invalid probabilities computed")\<close> is \<open>InvalidComputation\<close>,
  and the \<^verbatim>\<open>OverflowError\<close> of \<^verbatim>\<open>math.exp\<close> is \<open>OverflowError\<close>.
\<close>

datatype error = StoreUnavailable | InvalidComputation | OverflowError

subsection \<open>Floating-point range, exp and round\<close>

text \<open>The largest finite double, \<open>(2 - 2\<^sup>-\<^sup>5\<^sup>2) * 2\<^sup>1\<^sup>0\<^sup>2\<^sup>3\<close>.\<close>

definition DBL_MAX :: real where
  "DBL_MAX = (2 ^ 53 - 1) * 2 ^ 971"

text \<open>\<^verbatim>\<open>math.exp(x)\<close>: the exponential, or \<^verbatim>\<open>OverflowError\<close> when it leaves the range.\<close>

definition py_exp :: "real \<Rightarrow> error + real" where
  "py_exp x = (if DBL_MAX < exp x then Inl OverflowError else Inr (exp x))"

text \<open>
  \<^verbatim>\<open>round(x, n)\<close> on a float: the nearest multiple of \<open>10\<^sup>-\<^sup>n\<close>, a tie going to the
  even neighbour.
\<close>

definition round_half_even :: "real \<Rightarrow> int" where
  "round_half_even y =
     (let f = \<lfloor>y\<rfloor>; d = y - of_int f
      in if d < 1 / 2 then f
         else if 1 / 2 < d then f + 1
         else if even f then f else f + 1)"

definition py_round :: "real \<Rightarrow> nat \<Rightarrow> real" where
  "py_round x n = of_int (round_half_even (x * 10 ^ n)) / 10 ^ n"

subsection \<open>The odds model\<close>

text \<open>
  \<^verbatim>\<open>
  def logistic(x: float) -> float:
      return 1.0 / (1.0 + math.exp(-x))

  HOME_ADVANTAGE = 60.0  # Elo points
  GOAL_VALUE = 50.0      # Elo-equivalent per net goal lead
  MINUTE_DECAY = 0.025   # Confidence scaling as game progresses
  \<close>
  Over the reals; \<open>logistic_fl\<close> below is the same function on doubles.
\<close>

definition logistic :: "real \<Rightarrow> error + real" where
  "logistic x = (case py_exp (- x) of Inl e \<Rightarrow> Inl e | Inr y \<Rightarrow> Inr (1 / (1 + y)))"

definition HOME_ADVANTAGE :: real where
  "HOME_ADVANTAGE = 60"

definition GOAL_VALUE :: real where
  "GOAL_VALUE = 50"

definition MINUTE_DECAY :: real where
  "MINUTE_DECAY = 0.025"

text \<open>The request and the result, with the fields of the spec's data model.\<close>

record PredictionRequest =
  home_team :: string
  away_team :: string
  home_score :: int
  away_score :: int
  minute :: int
  is_neutral :: bool

record PredictionResult =
  p_home :: real
  p_draw :: real
  p_away :: real
  effective_diff :: real

text \<open>
  Lines 102 to 111 of \<^verbatim>\<open>predict\<close>: the rating difference, the home advantage, the
  score impact and the minute weighting.
  \<^verbatim>\<open>
  diff = r_home - r_away
  if not req.is_neutral:
      diff += HOME_ADVANTAGE
  diff += (req.home_score - req.away_score) * GOAL_VALUE
  minute_factor = logistic((req.minute - 45) * MINUTE_DECAY)
  effective_diff = diff * (0.7 + 0.6 * minute_factor)
  \<close>
\<close>

definition predict_diff :: "real \<Rightarrow> real \<Rightarrow> PredictionRequest \<Rightarrow> real" where
  "predict_diff r_home r_away req =
     (let diff = r_home - r_away;
          diff = (if \<not> is_neutral req then diff + HOME_ADVANTAGE else diff)
      in diff + of_int (home_score req - away_score req) * GOAL_VALUE)"

definition predict_effective_diff :: "real \<Rightarrow> real \<Rightarrow> PredictionRequest \<Rightarrow> error + real" where
  "predict_effective_diff r_home r_away req =
     (let diff = predict_diff r_home r_away req
      in case logistic (of_int (minute req - 45) * MINUTE_DECAY) of
           Inl e \<Rightarrow> Inl e
         | Inr minute_factor \<Rightarrow> Inr (diff * (0.7 + 0.6 * minute_factor)))"

text \<open>
  Lines 117 to 120: the draw probability.
  \<^verbatim>\<open>
  closeness = math.exp(-abs(effective_diff) / 200.0)
  late_draw_boost = 0.1 + 0.2 * logistic((req.minute - 60) * 0.05)
  p_draw = min(0.55, closeness * late_draw_boost)
  \<close>
  \<open>predict_draw_product\<close> is the second argument of the \<^verbatim>\<open>min\<close>.
\<close>

definition predict_draw_product :: "real \<Rightarrow> PredictionRequest \<Rightarrow> error + real" where
  "predict_draw_product ed req =
     (case py_exp (- \<bar>ed\<bar> / 200) of
        Inl e \<Rightarrow> Inl e
      | Inr closeness \<Rightarrow>
          (case logistic (of_int (minute req - 60) * 0.05) of
             Inl e \<Rightarrow> Inl e
           | Inr l \<Rightarrow> (let late_draw_boost = 0.1 + 0.2 * l in Inr (closeness * late_draw_boost))))"

definition predict_p_draw :: "real \<Rightarrow> PredictionRequest \<Rightarrow> error + real" where
  "predict_p_draw ed req =
     (case predict_draw_product ed req of Inl e \<Rightarrow> Inl e | Inr c \<Rightarrow> Inr (min 0.55 c))"

text \<open>
  Lines 122 to 133: rescaling by \<open>1 - p_draw\<close>, the sum, its check and the division.
  \<^verbatim>\<open>
  scale = 1.0 - p_draw
  p_home = p_home_raw * scale
  p_away = p_away_raw * scale
  total = p_home + p_draw + p_away
  if total <= 0:
      raise HTTPException(400, "Invalid probabilities computed")
  p_home /= total
  p_draw /= total
  p_away /= total
  \<close>
\<close>

definition predict_total :: "real \<Rightarrow> real \<Rightarrow> real \<Rightarrow> real" where
  "predict_total p_home_raw p_away_raw pd =
     (let scale = 1 - pd; ph = p_home_raw * scale; pa = p_away_raw * scale
      in ph + pd + pa)"

definition predict_normalize ::
  "real \<Rightarrow> real \<Rightarrow> real \<Rightarrow> real \<Rightarrow> error + PredictionResult" where
  "predict_normalize p_home_raw p_away_raw pd ed =
     (let scale = 1 - pd; ph = p_home_raw * scale; pa = p_away_raw * scale;
          total = predict_total p_home_raw p_away_raw pd
      in if total \<le> 0 then Inl InvalidComputation
         else Inr \<lparr>p_home = ph / total, p_draw = pd / total, p_away = pa / total,
                   effective_diff = ed\<rparr>)"

text \<open>
  Lines 102 to 133 as a whole: the probabilities before the final rounding, for the two
  ratings that lines 93 to 100 fetched.
  \<^verbatim>\<open>
  p_home_raw = logistic(effective_diff / 400.0 * math.log(10))
  p_away_raw = 1.0 - p_home_raw
  \<close>
\<close>

definition predict_probs :: "real \<Rightarrow> real \<Rightarrow> PredictionRequest \<Rightarrow> error + PredictionResult" where
  "predict_probs r_home r_away req =
     (case predict_effective_diff r_home r_away req of
        Inl e \<Rightarrow> Inl e
      | Inr ed \<Rightarrow>
          (case logistic (ed / 400 * ln 10) of
             Inl e \<Rightarrow> Inl e
           | Inr p_home_raw \<Rightarrow>
               (let p_away_raw = 1 - p_home_raw
                in case predict_p_draw ed req of
                     Inl e \<Rightarrow> Inl e
                   | Inr pd \<Rightarrow> predict_normalize p_home_raw p_away_raw pd ed)))"

text \<open>
  Lines 135 to 140: the result, rounded.
  \<^verbatim>\<open>
  return PredictionResult(
      p_home=round(p_home, 4), p_draw=round(p_draw, 4), p_away=round(p_away, 4),
      effective_diff=round(effective_diff, 2))
  \<close>
\<close>

definition round_result :: "PredictionResult \<Rightarrow> PredictionResult" where
  "round_result r =
     \<lparr>p_home = py_round (p_home r) 4, p_draw = py_round (p_draw r) 4,
      p_away = py_round (p_away r) 4, effective_diff = py_round (effective_diff r) 2\<rparr>"

subsection \<open>The rating store\<close>

text \<open>
  The body of an upsert request, \<^verbatim>\<open>TeamRating\<close>, and a stored document of the
  \<^verbatim>\<open>teamrating\<close> collection. A stored document has the identifier the store gave it
  and may lack the \<^verbatim>\<open>rating\<close> field (the code reads it with a default). The
  collection is a list, in insertion order; the handle \<^verbatim>\<open>db\<close> is \<open>None\<close> when the
  store is not configured.
\<close>

record TeamRating =
  team_name :: string
  rating :: real

record document =
  doc_id :: nat
  doc_team_name :: string
  doc_rating :: "real option"

type_synonym collection = "document list"

type_synonym database = "collection option"

text \<open>\<^verbatim>\<open>find_one({"team_name": name})\<close>: the first document with that name, if any.\<close>

definition find_one :: "collection \<Rightarrow> string \<Rightarrow> document option" where
  "find_one coll name = find (\<lambda>d. doc_team_name d = name) coll"

text \<open>
  \<^verbatim>\<open>update_one({"_id": i}, {"$set": doc})\<close>: the first document with that identifier
  gets the fields of \<open>doc\<close>; the others are left as they are.
\<close>

fun update_one :: "nat \<Rightarrow> TeamRating \<Rightarrow> collection \<Rightarrow> collection" where
  "update_one i t [] = []"
| "update_one i t (d # ds) =
     (if doc_id d = i
      then d\<lparr>doc_team_name := team_name t, doc_rating := Some (rating t)\<rparr> # ds
      else d # update_one i t ds)"

text \<open>
  Modelled from the spec: \<^verbatim>\<open>create_document\<close> of the module \<^verbatim>\<open>database\<close>, which is
  not among the sources. The spec says of the absent record "otherwise insert a new
  record": the collection gains one document with the fields of the request and an
  identifier no stored document has.
\<close>

definition fresh_id :: "collection \<Rightarrow> nat" where
  "fresh_id coll = Suc (fold max (map doc_id coll) 0)"

definition create_document :: "collection \<Rightarrow> TeamRating \<Rightarrow> collection" where
  "create_document coll t =
     coll @ [\<lparr>doc_id = fresh_id coll, doc_team_name = team_name t, doc_rating = Some (rating t)\<rparr>]"

text \<open>
  \<^verbatim>\<open>
  def upsert_team_rating(team: TeamRating):
      if db is None:
          raise HTTPException(500, "Database not configured")
      existing = db["teamrating"].find_one({"team_name": team.team_name})
      doc = team.model_dump()
      if existing:
          db["teamrating"].update_one({"_id": existing["_id"]}, {"$set": doc})
          return {"status": "updated"}
      else:
          create_document("teamrating", doc)
          return {"status": "created"}
  \<close>
  The model returns the status together with the collection after the call.
\<close>

definition upsert_team_rating :: "database \<Rightarrow> TeamRating \<Rightarrow> error + (string \<times> collection)" where
  "upsert_team_rating db team =
     (case db of
        None \<Rightarrow> Inl StoreUnavailable
      | Some coll \<Rightarrow>
          (case find_one coll (team_name team) of
             Some existing \<Rightarrow> Inr (''updated'', update_one (doc_id existing) team coll)
           | None \<Rightarrow> Inr (''created'', create_document coll team)))"

text \<open>
  \<^verbatim>\<open>
  def get_team_rating(team_name: str):
      if db is None:
          raise HTTPException(500, "Database not configured")
      existing = db["teamrating"].find_one({"team_name": team_name})
      if not existing:
          return {"team_name": team_name, "rating": 1500.0}
      return {"team_name": existing["team_name"],
              "rating": float(existing.get("rating", 1500.0))}
  \<close>
\<close>

definition get_team_rating :: "database \<Rightarrow> string \<Rightarrow> error + TeamRating" where
  "get_team_rating db name =
     (case db of
        None \<Rightarrow> Inl StoreUnavailable
      | Some coll \<Rightarrow>
          (case find_one coll name of
             None \<Rightarrow> Inr \<lparr>team_name = name, rating = 1500\<rparr>
           | Some existing \<Rightarrow>
               Inr \<lparr>team_name = doc_team_name existing,
                    rating = (case doc_rating existing of None \<Rightarrow> 1500 | Some r \<Rightarrow> r)\<rparr>))"

text \<open>
  Lines 93 to 100 of \<^verbatim>\<open>predict\<close>: the two ratings, from the store when there is one.
  \<^verbatim>\<open>
  if db is not None:
      hdoc = db["teamrating"].find_one({"team_name": req.home_team})
      adoc = db["teamrating"].find_one({"team_name": req.away_team})
      r_home = float(hdoc.get("rating", 1500.0)) if hdoc else 1500.0
      r_away = float(adoc.get("rating", 1500.0)) if adoc else 1500.0
  else:
      r_home, r_away = 1500.0, 1500.0
  \<close>
\<close>

definition doc_rating_or_default :: "document option \<Rightarrow> real" where
  "doc_rating_or_default doc =
     (case doc of
        None \<Rightarrow> 1500
      | Some d \<Rightarrow> (case doc_rating d of None \<Rightarrow> 1500 | Some r \<Rightarrow> r))"

definition fetch_ratings :: "database \<Rightarrow> PredictionRequest \<Rightarrow> real \<times> real" where
  "fetch_ratings db req =
     (case db of
        Some coll \<Rightarrow>
          (let hdoc = find_one coll (home_team req);
               adoc = find_one coll (away_team req)
           in (doc_rating_or_default hdoc, doc_rating_or_default adoc))
      | None \<Rightarrow> (1500, 1500))"

text \<open>The handler \<^verbatim>\<open>predict\<close>: fetch, compute, round.\<close>

definition predict :: "database \<Rightarrow> PredictionRequest \<Rightarrow> error + PredictionResult" where
  "predict db req =
     (let (r_home, r_away) = fetch_ratings db req
      in case predict_probs r_home r_away req of
           Inl e \<Rightarrow> Inl e
         | Inr r \<Rightarrow> Inr (round_result r))"

text \<open>
  A client that sends the same upsert \<open>n\<close> times, one call after the other, and collects
  the statuses; it stops at the first error.
\<close>

fun repeat_upsert :: "nat \<Rightarrow> database \<Rightarrow> TeamRating \<Rightarrow> error + string list" where
  "repeat_upsert 0 db team = Inr []"
| "repeat_upsert (Suc n) db team =
     (case upsert_team_rating db team of
        Inl e \<Rightarrow> Inl e
      | Inr (status, coll) \<Rightarrow>
          (case repeat_upsert n (Some coll) team of
             Inl e \<Rightarrow> Inl e
           | Inr statuses \<Rightarrow> Inr (status # statuses)))"

text \<open>
  The sigmoid of the spec's glossary, \<open>1 / (1 + e\<^sup>-\<^sup>x)\<close>, as the spec writes it: a total
  function on the reals. The formulas of the spec are compared with the code through it.
\<close>

definition sigmoid_spec :: "real \<Rightarrow> real" where
  "sigmoid_spec x = 1 / (1 + exp (- x))"

text \<open>
  The effective difference as the spec states it (steps 1 to 5 of its algorithm), for the
  two ratings and the request.
\<close>

definition effective_diff_spec :: "real \<Rightarrow> real \<Rightarrow> PredictionRequest \<Rightarrow> real" where
  "effective_diff_spec r_home r_away req =
     ((r_home - r_away) + (if \<not> is_neutral req then 60 else 0)
        + of_int (home_score req - away_score req) * 50)
     * (0.7 + 0.6 * sigmoid_spec (of_int (minute req - 45) * 0.025))"

text \<open>The draw probability as the spec states it (step 7), for an effective difference.\<close>

definition p_draw_spec :: "real \<Rightarrow> PredictionRequest \<Rightarrow> real" where
  "p_draw_spec ed req =
     min 0.55 (exp (- \<bar>ed\<bar> / 200) * (0.1 + 0.2 * sigmoid_spec (of_int (minute req - 60) * 0.05)))"

subsection \<open>The draw probability in double precision\<close>

text \<open>
  Where a property depends on binary rounding, exact reals say nothing about the program.
  For the draw probability (lines 61 to 62 and 117 to 120) there is a second model, in which
  every float operation rounds its exact result to the nearest double, a tie going to the
  even mantissa: \<open>fl\<close>. A double is a real here; exponent limits (subnormals, overflow
  of the arithmetic) are left out. A decimal literal is the double nearest to it,
  \<^verbatim>\<open>math.exp\<close> is taken as correctly rounded, and it raises as in \<open>py_exp\<close>.
\<close>

definition fl :: "real \<Rightarrow> real" where
  "fl x =
     (if x = 0 then 0
      else (let e = \<lfloor>log 2 \<bar>x\<bar>\<rfloor>; u = 2 powr (of_int e - 52)
            in of_int (round_half_even (x / u)) * u))"

text \<open>\<^verbatim>\<open>math.exp\<close> and \<^verbatim>\<open>logistic\<close> on doubles.\<close>

definition py_exp_fl :: "real \<Rightarrow> error + real" where
  "py_exp_fl x = (if DBL_MAX < exp x then Inl OverflowError else Inr (fl (exp x)))"

definition logistic_fl :: "real \<Rightarrow> error + real" where
  "logistic_fl x =
     (case py_exp_fl (- x) of Inl e \<Rightarrow> Inl e | Inr y \<Rightarrow> Inr (fl (1 / fl (1 + y))))"

text \<open>
  Lines 117 to 120 on doubles, for an effective difference \<open>ed\<close> that is a double:
  \<^verbatim>\<open>
  closeness = math.exp(-abs(effective_diff) / 200.0)
  late_draw_boost = 0.1 + 0.2 * logistic((req.minute - 60) * 0.05)
  p_draw = min(0.55, closeness * late_draw_boost)
  \<close>
\<close>

definition predict_draw_product_fl :: "real \<Rightarrow> PredictionRequest \<Rightarrow> error + real" where
  "predict_draw_product_fl ed req =
     (case py_exp_fl (fl (- \<bar>ed\<bar> / 200)) of
        Inl e \<Rightarrow> Inl e
      | Inr closeness \<Rightarrow>
          (case logistic_fl (fl (fl (of_int (minute req - 60)) * fl 0.05)) of
             Inl e \<Rightarrow> Inl e
           | Inr l \<Rightarrow>
               (let late_draw_boost = fl (fl 0.1 + fl (fl 0.2 * l))
                in Inr (fl (closeness * late_draw_boost)))))"

definition predict_p_draw_fl :: "real \<Rightarrow> PredictionRequest \<Rightarrow> error + real" where
  "predict_p_draw_fl ed req =
     (case predict_draw_product_fl ed req of Inl e \<Rightarrow> Inl e | Inr c \<Rightarrow> Inr (min (fl 0.55) c))"

section \<open>The rating store: lookup and upsert\<close>

lemma find_one_None_iff:
  "find_one coll name = None \<longleftrightarrow> (\<forall>d\<in>set coll. doc_team_name d \<noteq> name)"
  by (auto simp: find_one_def find_None_iff)

lemma find_one_Some_mem:
  "find_one coll name = Some d \<Longrightarrow> d \<in> set coll \<and> doc_team_name d = name"
  unfolding find_one_def by (induction coll) (auto split: if_splits)

lemma update_one_has_name:
  "d \<in> set coll \<Longrightarrow> doc_id d = i \<Longrightarrow>
   \<exists>d'\<in>set (update_one i t coll). doc_team_name d' = team_name t"
  by (induction coll) auto

lemma length_update_one: "length (update_one i t coll) = length coll"
  by (induction coll) auto

lemma upsert_keeps_name:
  assumes "upsert_team_rating (Some coll) t = Inr (s, coll')"
  shows "\<exists>d\<in>set coll'. doc_team_name d = team_name t"
proof (cases "find_one coll (team_name t)")
  case None
  with assms have "coll' = create_document coll t"
    by (simp add: upsert_team_rating_def)
  then show ?thesis by (simp add: create_document_def)
next
  case (Some existing)
  with assms have c: "coll' = update_one (doc_id existing) t coll"
    by (simp add: upsert_team_rating_def)
  from Some have "existing \<in> set coll" by (simp add: find_one_Some_mem)
  then show ?thesis unfolding c by (rule update_one_has_name) simp
qed

lemma upsert_present:
  assumes "\<exists>d\<in>set coll. doc_team_name d = team_name t"
  shows "\<exists>coll'. upsert_team_rating (Some coll) t = Inr (''updated'', coll')"
proof -
  from assms have "find_one coll (team_name t) \<noteq> None"
    by (simp add: find_one_None_iff)
  then obtain e where "find_one coll (team_name t) = Some e" by auto
  then show ?thesis by (simp add: upsert_team_rating_def)
qed

lemma upsert_absent:
  assumes "\<forall>d\<in>set coll. doc_team_name d \<noteq> team_name t"
  shows "upsert_team_rating (Some coll) t = Inr (''created'', create_document coll t)"
proof -
  from assms have "find_one coll (team_name t) = None"
    by (simp add: find_one_None_iff)
  then show ?thesis by (simp add: upsert_team_rating_def)
qed

lemma repeat_upsert_present:
  "\<exists>d\<in>set coll. doc_team_name d = team_name t \<Longrightarrow>
   repeat_upsert n (Some coll) t = Inr (replicate n ''updated'')"
proof (induction n arbitrary: coll)
  case 0
  show ?case by simp
next
  case (Suc n)
  from upsert_present [OF Suc.prems] obtain coll'
    where u: "upsert_team_rating (Some coll) t = Inr (''updated'', coll')" by blast
  from upsert_keeps_name [OF u] have "\<exists>d\<in>set coll'. doc_team_name d = team_name t" .
  from Suc.IH [OF this] u show ?case by simp
qed

lemma upsert_created_iff:
  "(\<exists>coll'. upsert_team_rating (Some coll) t = Inr (''created'', coll'))
     \<longleftrightarrow> (\<forall>d\<in>set coll. doc_team_name d \<noteq> team_name t)"
proof (cases "\<exists>d\<in>set coll. doc_team_name d = team_name t")
  case True
  from upsert_present [OF True] obtain c
    where "upsert_team_rating (Some coll) t = Inr (''updated'', c)" by blast
  with True show ?thesis by auto
next
  case False
  then have "\<forall>d\<in>set coll. doc_team_name d \<noteq> team_name t" by blast
  from upsert_absent [OF this] False show ?thesis by auto
qed

lemma upsert_updated_iff:
  "(\<exists>coll'. upsert_team_rating (Some coll) t = Inr (''updated'', coll'))
     \<longleftrightarrow> (\<exists>d\<in>set coll. doc_team_name d = team_name t)"
proof (cases "\<exists>d\<in>set coll. doc_team_name d = team_name t")
  case True
  with upsert_present [OF True] show ?thesis by blast
next
  case False
  then have "\<forall>d\<in>set coll. doc_team_name d \<noteq> team_name t" by blast
  from upsert_absent [OF this] False show ?thesis by auto
qed

lemma repeat_upsert_absent:
  assumes a: "\<forall>d\<in>set coll. doc_team_name d \<noteq> team_name t"
  shows "repeat_upsert (Suc n) (Some coll) t = Inr (''created'' # replicate n ''updated'')"
proof -
  from upsert_absent [OF a]
  have u: "upsert_team_rating (Some coll) t = Inr (''created'', create_document coll t)" .
  from upsert_keeps_name [OF u]
  have "\<exists>d\<in>set (create_document coll t). doc_team_name d = team_name t" .
  from repeat_upsert_present [OF this, of n] u show ?thesis by simp
qed

text \<open>
  Claim C6. On a configured store, the lookup of a team that no stored document names
  returns the rating 1500 under the requested name; it is a result, not an error.
\<close>

theorem get_team_rating_unknown:
  "\<forall>d\<in>set coll. doc_team_name d \<noteq> name \<Longrightarrow>
   get_team_rating (Some coll) name = Inr \<lparr>team_name = name, rating = 1500\<rparr>"
  by (simp add: get_team_rating_def find_one_None_iff [symmetric])

theorem get_team_rating_unknown_witness:
  "get_team_rating (Some [\<lparr>doc_id = 1, doc_team_name = ''Ajax'', doc_rating = Some 1720\<rparr>]) ''Feyenoord''
     = Inr \<lparr>team_name = ''Feyenoord'', rating = 1500\<rparr>"
  using get_team_rating_unknown
    [of "[\<lparr>doc_id = 1, doc_team_name = ''Ajax'', doc_rating = Some 1720\<rparr>]" "''Feyenoord''"]
  by simp

text \<open>
  Replacing in place: when the stored identifiers are distinct, as the store guarantees,
  a lookup after an upsert returns the upserted rating.
\<close>

lemma find_one_update_one:
  assumes "distinct (map doc_id coll)" and "find_one coll (team_name t) = Some e"
  shows "find_one (update_one (doc_id e) t coll) (team_name t)
    = Some (e\<lparr>doc_team_name := team_name t, doc_rating := Some (rating t)\<rparr>)"
  using assms
proof (induction coll)
  case Nil
  then show ?case by (simp add: find_one_def)
next
  case (Cons d ds)
  show ?case
  proof (cases "doc_team_name d = team_name t")
    case True
    with Cons.prems(2) have "e = d" by (simp add: find_one_def)
    with True show ?thesis by (simp add: find_one_def)
  next
    case False
    with Cons.prems(2) have e: "find_one ds (team_name t) = Some e" by (simp add: find_one_def)
    then have "e \<in> set ds" by (simp add: find_one_Some_mem)
    with Cons.prems(1) have "doc_id d \<noteq> doc_id e" by auto
    moreover from Cons.prems(1) have "distinct (map doc_id ds)" by simp
    note Cons.IH [OF this e]
    ultimately show ?thesis using False by (simp add: find_one_def)
  qed
qed

lemma find_append_last: "find P xs = None \<Longrightarrow> P x \<Longrightarrow> find P (xs @ [x]) = Some x"
  by (induction xs) (auto split: if_splits)

lemma find_one_create_document:
  assumes "find_one coll (team_name t) = None"
  shows "find_one (create_document coll t) (team_name t)
    = Some \<lparr>doc_id = fresh_id coll, doc_team_name = team_name t, doc_rating = Some (rating t)\<rparr>"
  using assms unfolding find_one_def create_document_def
  by (intro find_append_last) simp_all

lemma upsert_then_get:
  assumes "distinct (map doc_id coll)"
    and "upsert_team_rating (Some coll) t = Inr (status, coll')"
  shows "get_team_rating (Some coll') (team_name t) = Inr \<lparr>team_name = team_name t, rating = rating t\<rparr>"
proof (cases "find_one coll (team_name t)")
  case None
  with assms(2) have "coll' = create_document coll t" by (simp add: upsert_team_rating_def)
  with find_one_create_document [OF None] show ?thesis by (simp add: get_team_rating_def)
next
  case (Some e)
  with assms(2) have "coll' = update_one (doc_id e) t coll" by (simp add: upsert_team_rating_def)
  with find_one_update_one [OF assms(1) Some] show ?thesis by (simp add: get_team_rating_def)
qed

lemma update_one_at_index:
  assumes "distinct (map doc_id coll)" and "find_one coll name = Some e"
  shows "\<exists>i<length coll. coll ! i = e \<and> (\<forall>j<i. doc_team_name (coll ! j) \<noteq> name)
    \<and> update_one (doc_id e) t coll
        = coll[i := e\<lparr>doc_team_name := team_name t, doc_rating := Some (rating t)\<rparr>]"
  using assms
proof (induction coll)
  case Nil
  then show ?case by (simp add: find_one_def)
next
  case (Cons d ds)
  show ?case
  proof (cases "doc_team_name d = name")
    case True
    with Cons.prems(2) have "e = d" by (simp add: find_one_def)
    then have "(d # ds) ! 0 = e \<and> (\<forall>j<0. doc_team_name ((d # ds) ! j) \<noteq> name)
      \<and> update_one (doc_id e) t (d # ds)
          = (d # ds)[0 := e\<lparr>doc_team_name := team_name t, doc_rating := Some (rating t)\<rparr>]"
      by simp
    then show ?thesis by (intro exI [of _ 0]) simp
  next
    case False
    with Cons.prems(2) have e: "find_one ds name = Some e" by (simp add: find_one_def)
    then have "e \<in> set ds" by (simp add: find_one_Some_mem)
    with Cons.prems(1) have ne: "doc_id d \<noteq> doc_id e" by auto
    from Cons.prems(1) have "distinct (map doc_id ds)" by simp
    from Cons.IH [OF this e] obtain i where i: "i < length ds" "ds ! i = e"
      "\<forall>j<i. doc_team_name (ds ! j) \<noteq> name"
      "update_one (doc_id e) t ds
        = ds[i := e\<lparr>doc_team_name := team_name t, doc_rating := Some (rating t)\<rparr>]"
      by blast
    have "\<forall>j<Suc i. doc_team_name ((d # ds) ! j) \<noteq> name"
    proof (intro allI impI)
      fix j assume "j < Suc i"
      then show "doc_team_name ((d # ds) ! j) \<noteq> name"
        using False i(3) by (cases j) simp_all
    qed
    with i ne have "Suc i < length (d # ds) \<and> (d # ds) ! Suc i = e
      \<and> (\<forall>j<Suc i. doc_team_name ((d # ds) ! j) \<noteq> name)
      \<and> update_one (doc_id e) t (d # ds)
          = (d # ds)[Suc i := e\<lparr>doc_team_name := team_name t, doc_rating := Some (rating t)\<rparr>]"
      by simp
    then show ?thesis by blast
  qed
qed

lemma fold_max_ge: "(a::nat) \<le> fold max xs a"
proof (induction xs arbitrary: a)
  case Nil
  show ?case by simp
next
  case (Cons x xs)
  have "a \<le> max x a" by simp
  also have "\<dots> \<le> fold max xs (max x a)" by (rule Cons.IH)
  finally show ?case by simp
qed

lemma fold_max_mem: "x \<in> set xs \<Longrightarrow> (x::nat) \<le> fold max xs a"
proof (induction xs arbitrary: a)
  case Nil
  then show ?case by simp
next
  case (Cons y ys)
  show ?case
  proof (cases "x = y")
    case True
    have "x \<le> max y a" using True by simp
    also have "\<dots> \<le> fold max ys (max y a)" by (rule fold_max_ge)
    finally show ?thesis by simp
  next
    case False
    with Cons.prems have "x \<in> set ys" by simp
    then show ?thesis using Cons.IH by simp
  qed
qed

lemma fresh_id_fresh: "fresh_id coll \<notin> doc_id ` set coll"
proof
  assume "fresh_id coll \<in> doc_id ` set coll"
  then have "fresh_id coll \<in> set (map doc_id coll)" by simp
  then have "fresh_id coll \<le> fold max (map doc_id coll) 0" by (rule fold_max_mem)
  then show False by (simp add: fresh_id_def)
qed

lemma distinct_create_document:
  "distinct (map doc_id coll) \<Longrightarrow> distinct (map doc_id (create_document coll t))"
  using fresh_id_fresh [of coll] by (simp add: create_document_def)

lemma map_doc_id_update_one: "map doc_id (update_one i t coll) = map doc_id coll"
  by (induction coll) auto

lemma upsert_distinct:
  assumes "distinct (map doc_id coll)" and "upsert_team_rating (Some coll) t = Inr (s, coll')"
  shows "distinct (map doc_id coll')"
  using assms
  by (auto simp: upsert_team_rating_def map_doc_id_update_one distinct_create_document
      split: option.splits)

lemma upsert_in_place:
  assumes p: "\<exists>d\<in>set coll. doc_team_name d = team_name t" and d: "distinct (map doc_id coll)"
  shows "\<exists>i<length coll. doc_team_name (coll ! i) = team_name t
    \<and> (\<forall>j<i. doc_team_name (coll ! j) \<noteq> team_name t)
    \<and> upsert_team_rating (Some coll) t
        = Inr (''updated'',
            coll[i := (coll ! i)\<lparr>doc_team_name := team_name t, doc_rating := Some (rating t)\<rparr>])"
proof -
  from p have "find_one coll (team_name t) \<noteq> None" by (simp add: find_one_None_iff)
  then obtain e where e: "find_one coll (team_name t) = Some e" by auto
  from update_one_at_index [OF d e, of t] obtain i where i: "i < length coll" "coll ! i = e"
    "\<forall>j<i. doc_team_name (coll ! j) \<noteq> team_name t"
    "update_one (doc_id e) t coll
      = coll[i := e\<lparr>doc_team_name := team_name t, doc_rating := Some (rating t)\<rparr>]"
    by blast
  from e have "doc_team_name e = team_name t" by (simp add: find_one_Some_mem)
  with i e show ?thesis by (auto simp: upsert_team_rating_def)
qed

text \<open>
  Claim C7. On a configured store, an upsert answers \<open>created\<close> exactly when no stored
  document has the request's \<open>team_name\<close>, and then the collection gains one document
  with the request's fields; it answers \<open>updated\<close> exactly when one has, and then (the
  stored identifiers being distinct) the first document of that name has its fields
  replaced in place and every other document is left as it is. After either, a lookup
  returns the upserted rating. So a client that repeats one upsert on a store without the
  team reads \<open>created\<close> once and \<open>updated\<close> on every later call.
\<close>

theorem upsert_status:
  "((\<exists>coll'. upsert_team_rating (Some coll) t = Inr (''created'', coll'))
      \<longleftrightarrow> (\<forall>d\<in>set coll. doc_team_name d \<noteq> team_name t))
   \<and> ((\<exists>coll'. upsert_team_rating (Some coll) t = Inr (''updated'', coll'))
      \<longleftrightarrow> (\<exists>d\<in>set coll. doc_team_name d = team_name t))
   \<and> ((\<forall>d\<in>set coll. doc_team_name d \<noteq> team_name t) \<longrightarrow>
        upsert_team_rating (Some coll) t
          = Inr (''created'',
              coll @ [\<lparr>doc_id = fresh_id coll, doc_team_name = team_name t,
                        doc_rating = Some (rating t)\<rparr>])
        \<and> repeat_upsert (Suc n) (Some coll) t = Inr (''created'' # replicate n ''updated''))
   \<and> ((\<exists>d\<in>set coll. doc_team_name d = team_name t) \<and> distinct (map doc_id coll) \<longrightarrow>
        (\<exists>i<length coll. doc_team_name (coll ! i) = team_name t
           \<and> (\<forall>j<i. doc_team_name (coll ! j) \<noteq> team_name t)
           \<and> upsert_team_rating (Some coll) t
               = Inr (''updated'',
                   coll[i := (coll ! i)\<lparr>doc_team_name := team_name t,
                                          doc_rating := Some (rating t)\<rparr>])))
   \<and> (distinct (map doc_id coll) \<longrightarrow>
        (\<forall>s coll'. upsert_team_rating (Some coll) t = Inr (s, coll') \<longrightarrow>
           distinct (map doc_id coll')
           \<and> get_team_rating (Some coll') (team_name t)
               = Inr \<lparr>team_name = team_name t, rating = rating t\<rparr>))"
proof (intro conjI impI allI)
  show "(\<exists>coll'. upsert_team_rating (Some coll) t = Inr (''created'', coll'))
      \<longleftrightarrow> (\<forall>d\<in>set coll. doc_team_name d \<noteq> team_name t)"
    by (rule upsert_created_iff)
  show "(\<exists>coll'. upsert_team_rating (Some coll) t = Inr (''updated'', coll'))
      \<longleftrightarrow> (\<exists>d\<in>set coll. doc_team_name d = team_name t)"
    by (rule upsert_updated_iff)
next
  assume a: "\<forall>d\<in>set coll. doc_team_name d \<noteq> team_name t"
  from upsert_absent [OF a]
  show "upsert_team_rating (Some coll) t
      = Inr (''created'',
          coll @ [\<lparr>doc_id = fresh_id coll, doc_team_name = team_name t,
                    doc_rating = Some (rating t)\<rparr>])"
    by (simp add: create_document_def)
  from a show "repeat_upsert (Suc n) (Some coll) t = Inr (''created'' # replicate n ''updated'')"
    by (rule repeat_upsert_absent)
next
  assume "(\<exists>d\<in>set coll. doc_team_name d = team_name t) \<and> distinct (map doc_id coll)"
  then show "\<exists>i<length coll. doc_team_name (coll ! i) = team_name t
     \<and> (\<forall>j<i. doc_team_name (coll ! j) \<noteq> team_name t)
     \<and> upsert_team_rating (Some coll) t
         = Inr (''updated'',
             coll[i := (coll ! i)\<lparr>doc_team_name := team_name t,
                                    doc_rating := Some (rating t)\<rparr>])"
    using upsert_in_place by blast
next
  fix s coll'
  assume d: "distinct (map doc_id coll)"
    and u: "upsert_team_rating (Some coll) t = Inr (s, coll')"
  from d u show "distinct (map doc_id coll')" by (rule upsert_distinct)
  from d u show "get_team_rating (Some coll') (team_name t)
      = Inr \<lparr>team_name = team_name t, rating = rating t\<rparr>"
    by (rule upsert_then_get)
qed

theorem upsert_status_witness:
  "upsert_team_rating (Some [\<lparr>doc_id = 1, doc_team_name = ''Ajax'', doc_rating = Some 1500\<rparr>])
       \<lparr>team_name = ''Feyenoord'', rating = 1600\<rparr>
     = Inr (''created'',
         [\<lparr>doc_id = 1, doc_team_name = ''Ajax'', doc_rating = Some 1500\<rparr>,
          \<lparr>doc_id = 2, doc_team_name = ''Feyenoord'', doc_rating = Some 1600\<rparr>])
   \<and> repeat_upsert (Suc 2) (Some [\<lparr>doc_id = 1, doc_team_name = ''Ajax'', doc_rating = Some 1500\<rparr>])
       \<lparr>team_name = ''Feyenoord'', rating = 1600\<rparr>
     = Inr (''created'' # replicate 2 ''updated'')
   \<and> upsert_team_rating
       (Some [\<lparr>doc_id = 1, doc_team_name = ''Ajax'', doc_rating = Some 1500\<rparr>,
              \<lparr>doc_id = 2, doc_team_name = ''Feyenoord'', doc_rating = Some 1400\<rparr>])
       \<lparr>team_name = ''Feyenoord'', rating = 1600\<rparr>
     = Inr (''updated'',
         [\<lparr>doc_id = 1, doc_team_name = ''Ajax'', doc_rating = Some 1500\<rparr>,
          \<lparr>doc_id = 2, doc_team_name = ''Feyenoord'', doc_rating = Some 1600\<rparr>])
   \<and> get_team_rating
       (Some [\<lparr>doc_id = 1, doc_team_name = ''Ajax'', doc_rating = Some 1500\<rparr>,
              \<lparr>doc_id = 2, doc_team_name = ''Feyenoord'', doc_rating = Some 1600\<rparr>])
       ''Feyenoord''
     = Inr \<lparr>team_name = ''Feyenoord'', rating = 1600\<rparr>"
proof -
  let ?ajax = "\<lparr>doc_id = 1, doc_team_name = ''Ajax'', doc_rating = Some 1500\<rparr>"
  let ?fey = "\<lparr>doc_id = 2, doc_team_name = ''Feyenoord'', doc_rating = Some 1400\<rparr>"
  let ?t = "\<lparr>team_name = ''Feyenoord'', rating = 1600\<rparr>"
  have absent: "\<forall>d\<in>set [?ajax]. doc_team_name d \<noteq> team_name ?t" by simp
  have present: "(\<exists>d\<in>set [?ajax, ?fey]. doc_team_name d = team_name ?t)
    \<and> distinct (map doc_id [?ajax, ?fey])" by simp
  note one = upsert_status [of "[?ajax]" ?t 2]
  note two = upsert_status [of "[?ajax, ?fey]" ?t 0]
  from one absent have c: "upsert_team_rating (Some [?ajax]) ?t
      = Inr (''created'',
          [?ajax] @ [\<lparr>doc_id = fresh_id [?ajax], doc_team_name = team_name ?t,
                       doc_rating = Some (rating ?t)\<rparr>])"
    and r: "repeat_upsert (Suc 2) (Some [?ajax]) ?t = Inr (''created'' # replicate 2 ''updated'')"
    by blast+
  from two present obtain i where i: "i < length [?ajax, ?fey]"
    "doc_team_name ([?ajax, ?fey] ! i) = team_name ?t"
    "upsert_team_rating (Some [?ajax, ?fey]) ?t
      = Inr (''updated'',
          [?ajax, ?fey][i := ([?ajax, ?fey] ! i)\<lparr>doc_team_name := team_name ?t,
                                                   doc_rating := Some (rating ?t)\<rparr>])"
    by blast
  from i(1,2) have "i = 1" by (cases i) simp_all
  with i(3) have u: "upsert_team_rating (Some [?ajax, ?fey]) ?t
      = Inr (''updated'', [?ajax, \<lparr>doc_id = 2, doc_team_name = ''Feyenoord'',
                                       doc_rating = Some 1600\<rparr>])"
    by simp
  from two present u have g: "get_team_rating
      (Some [?ajax, \<lparr>doc_id = 2, doc_team_name = ''Feyenoord'', doc_rating = Some 1600\<rparr>])
      (team_name ?t) = Inr \<lparr>team_name = team_name ?t, rating = rating ?t\<rparr>"
    by blast
  from c r u g show ?thesis by (simp add: fresh_id_def)
qed

section \<open>Exponential range and rounding\<close>

lemma DBL_MAX_ge_1: "1 \<le> DBL_MAX"
  by (simp add: DBL_MAX_def)

lemma py_exp_nonpos: "x \<le> 0 \<Longrightarrow> py_exp x = Inr (exp x)"
proof -
  assume "x \<le> 0"
  then have "exp x \<le> 1" by simp
  with DBL_MAX_ge_1 have "\<not> DBL_MAX < exp x" by linarith
  then show ?thesis by (simp add: py_exp_def)
qed

lemma py_exp_Inr_iff: "py_exp x = Inr y \<longleftrightarrow> exp x \<le> DBL_MAX \<and> y = exp x"
  by (auto simp: py_exp_def)

lemma py_exp_Inl_iff: "py_exp x = Inl e \<longleftrightarrow> DBL_MAX < exp x \<and> e = OverflowError"
  by (auto simp: py_exp_def)

lemma logistic_Inr_iff:
  "logistic x = Inr y \<longleftrightarrow> exp (- x) \<le> DBL_MAX \<and> y = sigmoid_spec x"
  by (auto simp: logistic_def py_exp_def sigmoid_spec_def)

lemma logistic_Inl_iff:
  "logistic x = Inl e \<longleftrightarrow> DBL_MAX < exp (- x) \<and> e = OverflowError"
  by (auto simp: logistic_def py_exp_def)

lemma logistic_nonneg: "0 \<le> x \<Longrightarrow> logistic x = Inr (sigmoid_spec x)"
  using py_exp_nonpos [of "- x"] by (simp add: logistic_def sigmoid_spec_def)

lemma sigmoid_spec_0: "sigmoid_spec 0 = 1 / 2"
  by (simp add: sigmoid_spec_def)

lemma sigmoid_spec_pos: "0 < sigmoid_spec x"
  by (simp add: sigmoid_spec_def add_pos_pos)

lemma sigmoid_spec_less_1: "sigmoid_spec x < 1"
  by (simp add: sigmoid_spec_def add_pos_pos)

lemma sigmoid_spec_neg: "sigmoid_spec (- x) = 1 - sigmoid_spec x"
proof -
  have p: "0 < exp x" "0 < 1 + exp x" by (simp_all add: add_pos_pos)
  have "1 / (1 + exp x) = 1 - 1 / (1 + inverse (exp x))"
    using p by (simp add: divide_simps)
  then show ?thesis by (simp add: sigmoid_spec_def exp_minus)
qed

lemma round_half_even_of_int: "round_half_even (of_int n) = n"
  by (simp add: round_half_even_def)

lemma round_half_even_near:
  assumes "\<bar>y - of_int n\<bar> < 1 / 2"
  shows "round_half_even y = n"
proof -
  have "\<lfloor>y\<rfloor> = n \<or> \<lfloor>y\<rfloor> = n - 1" using assms by linarith
  then show ?thesis
  proof
    assume f: "\<lfloor>y\<rfloor> = n"
    then have "y - of_int n < 1 / 2" using assms by linarith
    with f show ?thesis by (simp add: round_half_even_def)
  next
    assume f: "\<lfloor>y\<rfloor> = n - 1"
    have "- (1 / 2) < y - of_int n" using assms by linarith
    then have "1 / 2 < y - of_int (n - 1)" by simp
    with f show ?thesis by (simp add: round_half_even_def)
  qed
qed

lemma round_half_even_bounds:
  "of_int (round_half_even y) \<le> y + 1 / 2" "y - 1 / 2 \<le> of_int (round_half_even y)"
  unfolding round_half_even_def Let_def by (auto; linarith)+

lemma round_half_even_mono:
  assumes "x \<le> y"
  shows "round_half_even x \<le> round_half_even y"
proof (cases "\<lfloor>x\<rfloor> = \<lfloor>y\<rfloor>")
  case True
  with assms show ?thesis unfolding round_half_even_def Let_def by auto
next
  case False
  with assms have "\<lfloor>x\<rfloor> < \<lfloor>y\<rfloor>" using floor_mono [of x y] by linarith
  then have "\<lfloor>x\<rfloor> + 1 \<le> \<lfloor>y\<rfloor>" by simp
  moreover have "round_half_even x \<le> \<lfloor>x\<rfloor> + 1" unfolding round_half_even_def Let_def by auto
  moreover have "\<lfloor>y\<rfloor> \<le> round_half_even y" unfolding round_half_even_def Let_def by auto
  ultimately show ?thesis by linarith
qed

lemma py_round_mono: "x \<le> y \<Longrightarrow> py_round x n \<le> py_round y n"
  unfolding py_round_def
  by (intro divide_right_mono) (auto intro!: round_half_even_mono mult_right_mono)

lemma py_round_grid: "py_round (of_int k / 10 ^ n) n = of_int k / 10 ^ n"
  by (simp add: py_round_def round_half_even_of_int)

lemma py_round_error: "\<bar>py_round x n - x\<bar> \<le> 1 / (2 * 10 ^ n)"
proof -
  define r where "r = (of_int (round_half_even (x * 10 ^ n)) :: real)"
  have p: "(0::real) < 10 ^ n" by simp
  from round_half_even_bounds [of "x * 10 ^ n"]
  have "\<bar>r - x * 10 ^ n\<bar> \<le> 1 / 2" unfolding r_def by linarith
  then have "\<bar>r - x * 10 ^ n\<bar> / 10 ^ n \<le> (1 / 2) / 10 ^ n"
    using p by (rule_tac divide_right_mono) simp_all
  moreover have "r / 10 ^ n - x = (r - x * 10 ^ n) / 10 ^ n"
    using p by (simp add: diff_divide_distrib)
  then have "\<bar>r / 10 ^ n - x\<bar> = \<bar>r - x * 10 ^ n\<bar> / 10 ^ n"
    using p by (simp only: abs_divide)
  ultimately show ?thesis by (simp add: py_round_def r_def)
qed

section \<open>The stages of the prediction\<close>

lemma predict_effective_diff_Inr:
  "predict_effective_diff r_home r_away req = Inr ed \<Longrightarrow>
   ed = effective_diff_spec r_home r_away req"
  by (auto simp: predict_effective_diff_def effective_diff_spec_def predict_diff_def
      HOME_ADVANTAGE_def GOAL_VALUE_def MINUTE_DECAY_def logistic_Inr_iff Let_def
      split: sum.splits)


lemma late_draw_boost_bounds:
  "1 / 10 < 0.1 + 0.2 * sigmoid_spec x" "0.1 + 0.2 * sigmoid_spec x < 3 / 10"
  using sigmoid_spec_pos [of x] sigmoid_spec_less_1 [of x] by simp_all

lemma draw_product_bounds:
  fixes ed x :: real
  defines "c \<equiv> exp (- \<bar>ed\<bar> / 200) * (0.1 + 0.2 * sigmoid_spec x)"
  shows "0 < c" "c < 3 / 10"
proof -
  have e: "0 < exp (- \<bar>ed\<bar> / 200)" "exp (- \<bar>ed\<bar> / 200) \<le> 1" by simp_all
  note b = late_draw_boost_bounds [of x]
  from e(1) b(1) show "0 < c" unfolding c_def by (intro mult_pos_pos) simp_all
  have "c \<le> 1 * (0.1 + 0.2 * sigmoid_spec x)"
    unfolding c_def using e(2) b(1) by (intro mult_right_mono) simp_all
  with b(2) show "c < 3 / 10" by simp
qed

lemma predict_draw_product_Inr:
  assumes "predict_draw_product ed req = Inr c"
  shows "c = exp (- \<bar>ed\<bar> / 200) * (0.1 + 0.2 * sigmoid_spec (of_int (minute req - 60) * 0.05))"
  using assms
  by (auto simp: predict_draw_product_def py_exp_Inr_iff logistic_Inr_iff Let_def
      split: sum.splits)

lemma predict_p_draw_Inr:
  assumes "predict_p_draw ed req = Inr pd"
  shows "pd = p_draw_spec ed req" "0 < pd" "pd < 3 / 10"
    "predict_draw_product ed req = Inr pd"
proof -
  from assms obtain c where c: "predict_draw_product ed req = Inr c" and pd: "pd = min 0.55 c"
    by (auto simp: predict_p_draw_def split: sum.splits)
  note ceq = predict_draw_product_Inr [OF c]
  from draw_product_bounds [of ed "of_int (minute req - 60) * 0.05"] ceq
  have b: "0 < c" "c < 3 / 10" by simp_all
  from pd ceq show "pd = p_draw_spec ed req" by (simp add: p_draw_spec_def)
  from b pd show "0 < pd" "pd < 3 / 10" by simp_all
  from b pd have "pd = c" by simp
  with c show "predict_draw_product ed req = Inr pd" by simp
qed

lemma predict_total_one: "predict_total s (1 - s) pd = 1"
  by (simp add: predict_total_def Let_def algebra_simps)

lemma predict_normalize_one:
  "predict_normalize s (1 - s) pd ed =
   Inr \<lparr>p_home = s * (1 - pd), p_draw = pd, p_away = (1 - s) * (1 - pd), effective_diff = ed\<rparr>"
  by (simp add: predict_normalize_def predict_total_one Let_def)

lemma predict_probs_Inr:
  assumes "predict_probs r_home r_away req = Inr r"
  obtains ed s pd where
    "predict_effective_diff r_home r_away req = Inr ed"
    "logistic (ed / 400 * ln 10) = Inr s"
    "predict_p_draw ed req = Inr pd"
    "r = \<lparr>p_home = s * (1 - pd), p_draw = pd, p_away = (1 - s) * (1 - pd), effective_diff = ed\<rparr>"
  using assms
  by (auto simp: predict_probs_def predict_normalize_one Let_def split: sum.splits)

lemma predict_probs_closed:
  assumes "predict_probs r_home r_away req = Inr r"
  defines "ed \<equiv> effective_diff_spec r_home r_away req"
  shows "r = \<lparr>p_home = sigmoid_spec (ed / 400 * ln 10) * (1 - p_draw_spec ed req),
              p_draw = p_draw_spec ed req,
              p_away = (1 - sigmoid_spec (ed / 400 * ln 10)) * (1 - p_draw_spec ed req),
              effective_diff = ed\<rparr>"
proof -
  from assms(1) obtain ed' s pd where
    a: "predict_effective_diff r_home r_away req = Inr ed'" and
    b: "logistic (ed' / 400 * ln 10) = Inr s" and
    c: "predict_p_draw ed' req = Inr pd" and
    d: "r = \<lparr>p_home = s * (1 - pd), p_draw = pd, p_away = (1 - s) * (1 - pd), effective_diff = ed'\<rparr>"
    by (rule predict_probs_Inr)
  from a have "ed' = ed" unfolding ed_def by (rule predict_effective_diff_Inr)
  with b c d predict_p_draw_Inr(1) [OF c] show ?thesis
    by (simp add: logistic_Inr_iff)
qed


lemma predict_probs_error:
  "predict_probs r_home r_away req = Inl e \<Longrightarrow> e = OverflowError"
  by (auto simp: predict_probs_def predict_effective_diff_def predict_p_draw_def
      predict_draw_product_def predict_normalize_one logistic_Inl_iff py_exp_Inl_iff Let_def
      split: sum.splits)

lemma predict_Inr:
  assumes "predict db req = Inr res"
  obtains r where
    "predict_probs (fst (fetch_ratings db req)) (snd (fetch_ratings db req)) req = Inr r"
    "res = round_result r"
  using assms by (auto simp: predict_def split: sum.splits prod.splits)

lemma predict_error: "predict db req = Inl e \<Longrightarrow> e = OverflowError"
  by (auto simp: predict_def split: sum.splits prod.splits dest: predict_probs_error)

section \<open>Properties of a prediction\<close>

lemma round_half_even_numeral [simp]: "round_half_even (numeral k) = numeral k"
  by (simp add: round_half_even_def)

lemma round_half_even_zero [simp]: "round_half_even 0 = 0"
  by (simp add: round_half_even_def)

lemma logistic_zero: "logistic 0 = Inr (1 / 2)"
  using logistic_nonneg [of 0] by (simp add: sigmoid_spec_0)

lemma predict_probs_level:
  "predict_probs 1500 1500
     \<lparr>home_team = ''A'', away_team = ''B'', home_score = 0, away_score = 0, minute = 60,
      is_neutral = True\<rparr>
   = Inr \<lparr>p_home = 0.4, p_draw = 0.2, p_away = 0.4, effective_diff = 0\<rparr>"
proof -
  have a: "logistic (15 * MINUTE_DECAY) = Inr (sigmoid_spec (15 * MINUTE_DECAY))"
    by (rule logistic_nonneg) (simp add: MINUTE_DECAY_def)
  have b: "py_exp 0 = Inr 1" using py_exp_nonpos [of 0] by simp
  show ?thesis
    by (simp add: predict_probs_def predict_effective_diff_def predict_diff_def a b
        logistic_zero predict_p_draw_def predict_draw_product_def predict_normalize_def
        predict_total_def Let_def)
qed

lemma predict_level:
  "predict None
     \<lparr>home_team = ''A'', away_team = ''B'', home_score = 0, away_score = 0, minute = 60,
      is_neutral = True\<rparr>
   = Inr \<lparr>p_home = 0.4, p_draw = 0.2, p_away = 0.4, effective_diff = 0\<rparr>"
  by (simp add: predict_def fetch_ratings_def predict_probs_level round_result_def py_round_def)

text \<open>
  Claim C1. Whenever a prediction request is answered with a result, the three
  probabilities before the final rounding sum to exactly 1 (so within \<open>10\<^sup>-\<^sup>9\<close>), and the
  three returned, rounded probabilities sum to 1 within \<open>10\<^sup>-\<^sup>3\<close>.
\<close>

theorem predict_sums_to_one:
  assumes "predict db req = Inr res"
  shows "\<bar>p_home res + p_draw res + p_away res - 1\<bar> \<le> 1 / 1000
    \<and> (\<exists>r. predict_probs (fst (fetch_ratings db req)) (snd (fetch_ratings db req)) req = Inr r
          \<and> res = round_result r \<and> p_home r + p_draw r + p_away r = 1)"
proof -
  from assms obtain r where
    r: "predict_probs (fst (fetch_ratings db req)) (snd (fetch_ratings db req)) req = Inr r"
    and res: "res = round_result r"
    by (rule predict_Inr)
  from r obtain ed s pd where
    "r = \<lparr>p_home = s * (1 - pd), p_draw = pd, p_away = (1 - s) * (1 - pd), effective_diff = ed\<rparr>"
    by (rule predict_probs_Inr)
  then have one: "p_home r + p_draw r + p_away r = 1"
    by (simp add: algebra_simps)
  have "\<bar>py_round (p_home r) 4 - p_home r\<bar> \<le> 1 / 20000"
    "\<bar>py_round (p_draw r) 4 - p_draw r\<bar> \<le> 1 / 20000"
    "\<bar>py_round (p_away r) 4 - p_away r\<bar> \<le> 1 / 20000"
    using py_round_error [of "p_home r" 4] py_round_error [of "p_draw r" 4]
      py_round_error [of "p_away r" 4] by simp_all
  with one have "\<bar>py_round (p_home r) 4 + py_round (p_draw r) 4 + py_round (p_away r) 4 - 1\<bar>
      \<le> 1 / 1000"
    by linarith
  with r res one show ?thesis by (simp add: round_result_def)
qed

theorem predict_sums_to_one_witness:
  "\<bar>(0.4::real) + 0.2 + 0.4 - 1\<bar> \<le> 1 / 1000
   \<and> (\<exists>r. predict_probs 1500 1500
         \<lparr>home_team = ''A'', away_team = ''B'', home_score = 0, away_score = 0, minute = 60,
          is_neutral = True\<rparr> = Inr r
        \<and> \<lparr>p_home = 0.4, p_draw = 0.2, p_away = 0.4, effective_diff = 0\<rparr> = round_result r
        \<and> p_home r + p_draw r + p_away r = 1)"
  using predict_sums_to_one [OF predict_level]
  by (simp add: fetch_ratings_def)

text \<open>
  Claim C2. The returned \<open>effective_diff\<close> is the spec's formula for the two fetched
  ratings and the request, rounded to 2 places.
\<close>

theorem predict_effective_diff_formula:
  assumes "predict db req = Inr res"
  shows "effective_diff res =
    py_round (effective_diff_spec (fst (fetch_ratings db req)) (snd (fetch_ratings db req)) req) 2"
proof -
  from assms obtain r where
    r: "predict_probs (fst (fetch_ratings db req)) (snd (fetch_ratings db req)) req = Inr r"
    and res: "res = round_result r"
    by (rule predict_Inr)
  from predict_probs_closed [OF r] res show ?thesis
    by (simp add: round_result_def)
qed

theorem predict_effective_diff_formula_witness:
  "(0::real) = py_round (effective_diff_spec 1500 1500
       \<lparr>home_team = ''A'', away_team = ''B'', home_score = 0, away_score = 0, minute = 60,
        is_neutral = True\<rparr>) 2"
  using predict_effective_diff_formula [OF predict_level]
  by (simp add: fetch_ratings_def)

text \<open>
  Claim C3. The returned \<open>p_draw\<close> is at most 0.55; before the rounding it is the
  spec's \<open>min(0.55, closeness * late_draw_boost)\<close> at the unrounded effective difference.
\<close>

theorem predict_p_draw_capped:
  assumes "predict db req = Inr res"
  shows "p_draw res \<le> 55 / 100
    \<and> (\<exists>r. predict_probs (fst (fetch_ratings db req)) (snd (fetch_ratings db req)) req = Inr r
          \<and> p_draw r = p_draw_spec (effective_diff r) req
          \<and> p_draw res = py_round (p_draw r) 4)"
proof -
  from assms obtain r where
    r: "predict_probs (fst (fetch_ratings db req)) (snd (fetch_ratings db req)) req = Inr r"
    and res: "res = round_result r"
    by (rule predict_Inr)
  note c = predict_probs_closed [OF r]
  from c have pd: "p_draw r = p_draw_spec (effective_diff r) req" by simp
  have "p_draw r \<le> 5500 / 10 ^ 4" unfolding pd by (simp add: p_draw_spec_def)
  then have "py_round (p_draw r) 4 \<le> py_round (of_int 5500 / 10 ^ 4) 4"
    by (intro py_round_mono) simp
  also have "\<dots> = of_int 5500 / 10 ^ 4" by (rule py_round_grid)
  finally have "py_round (p_draw r) 4 \<le> 55 / 100" by simp
  with r pd res show ?thesis by (simp add: round_result_def)
qed

theorem predict_p_draw_capped_witness:
  "(0.2::real) \<le> 55 / 100
   \<and> (\<exists>r. predict_probs 1500 1500
         \<lparr>home_team = ''A'', away_team = ''B'', home_score = 0, away_score = 0, minute = 60,
          is_neutral = True\<rparr> = Inr r
        \<and> p_draw r = p_draw_spec (effective_diff r)
            \<lparr>home_team = ''A'', away_team = ''B'', home_score = 0, away_score = 0, minute = 60,
             is_neutral = True\<rparr>
        \<and> (0.2::real) = py_round (p_draw r) 4)"
  using predict_p_draw_capped [OF predict_level]
  by (simp add: fetch_ratings_def)

text \<open>
  Claim C9. The prediction fails with \<open>InvalidComputation\<close> exactly when the sum
  computed before the renormalisation is at most 0, and that never happens: whenever the
  sum is computed it is positive, so no request is answered with \<open>InvalidComputation\<close>.
\<close>

theorem predict_invalid_unreachable:
  "(predict_probs r_home r_away req = Inl InvalidComputation \<longleftrightarrow>
      (\<exists>ed s pd. predict_effective_diff r_home r_away req = Inr ed
         \<and> logistic (ed / 400 * ln 10) = Inr s
         \<and> predict_p_draw ed req = Inr pd
         \<and> predict_total s (1 - s) pd \<le> 0))
   \<and> (\<forall>ed s pd. predict_effective_diff r_home r_away req = Inr ed
         \<and> logistic (ed / 400 * ln 10) = Inr s
         \<and> predict_p_draw ed req = Inr pd
         \<longrightarrow> 0 < predict_total s (1 - s) pd)
   \<and> predict_probs r_home r_away req \<noteq> Inl InvalidComputation
   \<and> predict db req \<noteq> Inl InvalidComputation"
proof -
  have a: "predict_probs r_home r_away req \<noteq> Inl InvalidComputation"
    using predict_probs_error [of r_home r_away req InvalidComputation] by auto
  have b: "predict db req \<noteq> Inl InvalidComputation"
    using predict_error [of db req InvalidComputation] by auto
  from a b show ?thesis by (simp add: predict_total_one)
qed

theorem predict_invalid_unreachable_witness:
  "predict_probs 1500 1500
     \<lparr>home_team = ''A'', away_team = ''B'', home_score = 0, away_score = 0, minute = 60,
      is_neutral = True\<rparr> \<noteq> Inl InvalidComputation
   \<and> (0::real) < predict_total (1 / 2) (1 - 1 / 2) (2 / 10)"
proof -
  let ?req = "\<lparr>home_team = ''A'', away_team = ''B'', home_score = 0, away_score = 0,
    minute = 60, is_neutral = True\<rparr>"
  have a: "logistic (15 * MINUTE_DECAY) = Inr (sigmoid_spec (15 * MINUTE_DECAY))"
    by (rule logistic_nonneg) (simp add: MINUTE_DECAY_def)
  have e: "predict_effective_diff 1500 1500 ?req = Inr 0"
    by (simp add: predict_effective_diff_def predict_diff_def a Let_def)
  have l: "logistic (0 / 400 * ln 10) = Inr (1 / 2)" by (simp add: logistic_zero)
  have b: "py_exp 0 = Inr 1" using py_exp_nonpos [of 0] by simp
  have p: "predict_p_draw 0 ?req = Inr (2 / 10)"
    by (simp add: predict_p_draw_def predict_draw_product_def b logistic_zero Let_def)
  from predict_invalid_unreachable [of 1500 1500 ?req None] e l p show ?thesis by blast
qed

section \<open>Evaluating lopsided and out-of-range requests\<close>

lemma exp_mult_ln10: "exp (real n * ln 10) = 10 ^ n"
  by (simp add: exp_of_nat_mult)

lemma exp_one_ge_2: "(2::real) \<le> exp 1"
  using exp_ge_add_one_self [of "1::real"] by simp

lemma exp_nat_ge_pow2: "(2::real) ^ n \<le> exp (of_nat n)"
proof -
  have "exp (of_nat n * (1::real)) = exp 1 ^ n" by (rule exp_of_nat_mult)
  moreover have "(2::real) ^ n \<le> exp 1 ^ n" by (intro power_mono exp_one_ge_2) simp
  ultimately show ?thesis by simp
qed

lemma exp_minus_20: "exp (- (20::real)) \<le> 1 / 2 ^ 20"
proof -
  have "(2::real) ^ 20 \<le> exp (of_nat 20)" by (rule exp_nat_ge_pow2)
  then have "(2::real) ^ 20 \<le> exp 20" by simp
  then have "1 / exp (20::real) \<le> 1 / 2 ^ 20" by (intro divide_left_mono) simp_all
  then show ?thesis by (simp add: exp_minus inverse_eq_divide)
qed

lemma ln10_ge_2: "(2::real) \<le> ln 10"
proof -
  have "exp (2::real) = exp 1 ^ 2" using exp_of_nat_mult [of 2 "1::real"] by simp
  also have "\<dots> \<le> 3 ^ 2" by (intro power_mono exp_le) simp
  finally have "exp (2::real) \<le> 10" by simp
  then show ?thesis by (simp add: ln_ge_iff)
qed

lemma round_to_certain:
  fixes s pd :: real
  assumes "1 - 1 / 10 ^ 5 \<le> s" "s \<le> 1" "0 \<le> pd" "pd \<le> 1 / 10 ^ 5"
  shows "py_round (s * (1 - pd)) 4 = 1" "py_round pd 4 = 0"
    "py_round ((1 - s) * (1 - pd)) 4 = 0"
proof -
  have lo: "(1 - 1 / 10 ^ 5) * (1 - 1 / 10 ^ 5) \<le> s * (1 - pd)"
    using assms by (intro mult_mono) simp_all
  have hi: "s * (1 - pd) \<le> 1 * 1" using assms by (intro mult_mono) simp_all
  from lo hi have "\<bar>s * (1 - pd) * 10 ^ 4 - of_int 10000\<bar> < 1 / 2" by simp
  then have "round_half_even (s * (1 - pd) * 10 ^ 4) = 10000" by (rule round_half_even_near)
  then show "py_round (s * (1 - pd)) 4 = 1" by (simp add: py_round_def)
  from assms have "\<bar>pd * 10 ^ 4 - of_int 0\<bar> < 1 / 2" by simp
  then have "round_half_even (pd * 10 ^ 4) = 0" by (rule round_half_even_near)
  then show "py_round pd 4 = 0" by (simp add: py_round_def)
  have "0 \<le> (1 - s) * (1 - pd)" using assms by (intro mult_nonneg_nonneg) simp_all
  moreover have "(1 - s) * (1 - pd) \<le> (1 / 10 ^ 5) * 1"
    using assms by (intro mult_mono) simp_all
  ultimately have "\<bar>(1 - s) * (1 - pd) * 10 ^ 4 - of_int 0\<bar> < 1 / 2" by simp
  then have "round_half_even ((1 - s) * (1 - pd) * 10 ^ 4) = 0" by (rule round_half_even_near)
  then show "py_round ((1 - s) * (1 - pd)) 4 = 0" by (simp add: py_round_def)
qed

lemma py_round_of_int: "py_round (of_int k) n = of_int k"
proof -
  have "(of_int k :: real) * 10 ^ n = of_int (k * 10 ^ n)" by simp
  then have "round_half_even (of_int k * 10 ^ n) = k * 10 ^ n"
    by (simp only: round_half_even_of_int)
  then show ?thesis by (simp add: py_round_def)
qed

lemma effective_diff_spec_half_time:
  assumes "minute req = 45" "is_neutral req"
  shows "effective_diff_spec r r req = of_int (50 * (home_score req - away_score req))"
  using assms by (simp add: effective_diff_spec_def sigmoid_spec_0)

lemma predict_effective_diff_half_time:
  assumes "minute req = 45" "is_neutral req"
  shows "predict_effective_diff r r req = Inr (of_int (50 * (home_score req - away_score req)))"
  using assms
  by (simp add: predict_effective_diff_def predict_diff_def logistic_zero GOAL_VALUE_def Let_def)

lemma exp_three_quarters: "exp (3 / 4 :: real) \<le> DBL_MAX"
proof -
  have "exp (3 / 4 :: real) \<le> exp 1" by simp
  also have "\<dots> \<le> 3" by (rule exp_le)
  also have "\<dots> \<le> DBL_MAX" by (simp add: DBL_MAX_def)
  finally show ?thesis .
qed

lemma predict_p_draw_half_time:
  assumes "minute req = 45"
  shows "\<exists>pd. predict_p_draw ed req = Inr pd"
proof -
  have a: "py_exp (- \<bar>ed\<bar> / 200) = Inr (exp (- \<bar>ed\<bar> / 200))"
    by (rule py_exp_nonpos) simp
  have "exp (- (of_int (45 - 60) * 0.05 :: real)) \<le> DBL_MAX"
    using exp_three_quarters by simp
  then have "\<exists>l. logistic (of_int (45 - 60) * 0.05) = Inr l"
    by (simp add: logistic_Inr_iff)
  with a assms show ?thesis
    by (auto simp: predict_p_draw_def predict_draw_product_def Let_def simp del: of_int_diff)
qed

lemma predict_lopsided:
  assumes m: "minute req = 45" and n: "is_neutral req"
    and g: "80 \<le> home_score req - away_score req"
  shows "predict None req =
    Inr \<lparr>p_home = 1, p_draw = 0, p_away = 0,
         effective_diff = of_int (50 * (home_score req - away_score req))\<rparr>"
proof -
  define gap where "gap = home_score req - away_score req"
  define ed :: real where "ed = of_int (50 * gap)"
  have ed: "predict_effective_diff 1500 1500 req = Inr ed"
    unfolding ed_def gap_def using m n by (rule predict_effective_diff_half_time)
  from g have ed_ge: "4000 \<le> ed" unfolding ed_def gap_def by simp
  define s where "s = sigmoid_spec (ed / 400 * ln 10)"
  have arg: "5 * ln 10 \<le> ed / 400 * ln 10"
    using ed_ge ln10_ge_2 by (intro mult_right_mono) simp_all
  with ln10_ge_2 have "0 \<le> ed / 400 * ln 10" by linarith
  then have s: "logistic (ed / 400 * ln 10) = Inr s"
    unfolding s_def by (rule logistic_nonneg)
  from predict_p_draw_half_time [OF m] obtain pd where pd: "predict_p_draw ed req = Inr pd"
    by blast
  have "exp (- (ed / 400 * ln 10)) \<le> exp (- (5 * ln 10))" using arg by simp
  also have "\<dots> = 1 / 10 ^ 5"
    using exp_mult_ln10 [of 5] by (simp add: exp_minus inverse_eq_divide)
  finally have e5: "exp (- (ed / 400 * ln 10)) \<le> 1 / 10 ^ 5" .
  have "1 - 1 / 10 ^ 5 \<le> 1 / (1 + 1 / 10 ^ 5 :: real)" by simp
  also have "\<dots> \<le> 1 / (1 + exp (- (ed / 400 * ln 10)))"
    using e5 by (intro divide_left_mono mult_pos_pos add_pos_pos) simp_all
  finally have s_lo: "1 - 1 / 10 ^ 5 \<le> s" by (simp add: s_def sigmoid_spec_def)
  have s_hi: "s \<le> 1" using sigmoid_spec_less_1 [of "ed / 400 * ln 10"] by (simp add: s_def)
  note pdb = predict_p_draw_Inr [OF pd]
  have "pd \<le> exp (- \<bar>ed\<bar> / 200) * 1"
    unfolding pdb(1) p_draw_spec_def
    using late_draw_boost_bounds(2) [of "of_int (minute req - 60) * 0.05"]
    by (intro min.coboundedI2 mult_left_mono) simp_all
  also have "exp (- \<bar>ed\<bar> / 200) \<le> exp (- 20)" using ed_ge by simp
  also have "\<dots> \<le> 1 / 2 ^ 20" by (rule exp_minus_20)
  finally have pd_hi: "pd \<le> 1 / 10 ^ 5" by simp
  from pdb(2) have pd_lo: "0 \<le> pd" by simp
  note rr = round_to_certain [OF s_lo s_hi pd_lo pd_hi]
  have "predict_probs 1500 1500 req =
      Inr \<lparr>p_home = s * (1 - pd), p_draw = pd, p_away = (1 - s) * (1 - pd), effective_diff = ed\<rparr>"
    using ed s pd by (simp add: predict_probs_def predict_normalize_one Let_def)
  then show ?thesis
    using rr by (simp add: predict_def fetch_ratings_def round_result_def ed_def gap_def
        py_round_of_int del: of_int_mult of_int_diff)
qed

lemma predict_overflow:
  assumes m: "minute req = 45" and n: "is_neutral req"
    and g: "home_score req - away_score req \<le> - 2472"
  shows "predict None req = Inl OverflowError"
proof -
  define ed :: real where "ed = of_int (50 * (home_score req - away_score req))"
  have ed: "predict_effective_diff 1500 1500 req = Inr ed"
    unfolding ed_def using m n by (rule predict_effective_diff_half_time)
  from g have "ed \<le> - 123600" unfolding ed_def by simp
  then have "309 \<le> - ed / 400" by simp
  then have "309 * ln 10 \<le> (- ed / 400) * ln 10"
    using ln10_ge_2 by (intro mult_right_mono) simp_all
  then have "exp (309 * ln 10) \<le> exp (- (ed / 400 * ln 10))" by simp
  moreover have "DBL_MAX < exp (309 * ln 10)"
    using exp_mult_ln10 [of 309] by (simp add: DBL_MAX_def)
  ultimately have "DBL_MAX < exp (- (ed / 400 * ln 10))" by linarith
  then have "logistic (ed / 400 * ln 10) = Inl OverflowError"
    by (simp add: logistic_Inl_iff)
  then show ?thesis
    by (simp add: predict_def fetch_ratings_def predict_probs_def ed)
qed

section \<open>Monotonicity in the effective difference\<close>






section \<open>Store availability, score lead and venue symmetry\<close>

lemma predict_not_store_unavailable: "predict db req \<noteq> Inl StoreUnavailable"
  using predict_error [of db req StoreUnavailable] by auto

text \<open>
  Claim C8, as stated, fails for the prediction: with no store configured, a prediction
  request is answered with a result, not with \<open>StoreUnavailable\<close>.
\<close>

theorem predict_without_store_counterexample:
  "predict None
     \<lparr>home_team = ''A'', away_team = ''B'', home_score = 0, away_score = 0, minute = 60,
      is_neutral = True\<rparr>
     = Inr \<lparr>p_home = 0.4, p_draw = 0.2, p_away = 0.4, effective_diff = 0\<rparr>
   \<and> predict None
     \<lparr>home_team = ''A'', away_team = ''B'', home_score = 0, away_score = 0, minute = 60,
      is_neutral = True\<rparr> \<noteq> Inl StoreUnavailable"
  by (simp add: predict_level)

text \<open>
  Claim C8, amended. Upsert and rating lookup check the store first and fail with
  \<open>StoreUnavailable\<close> when it is not configured. The prediction does not fail then: it
  takes 1500 for both ratings and computes as usual, and it never answers
  \<open>StoreUnavailable\<close>, which is a different error from \<open>InvalidComputation\<close>.
\<close>

theorem store_check:
  "upsert_team_rating None team = Inl StoreUnavailable
   \<and> get_team_rating None name = Inl StoreUnavailable
   \<and> fetch_ratings None req = (1500, 1500)
   \<and> predict None req =
       (case predict_probs 1500 1500 req of Inl e \<Rightarrow> Inl e | Inr r \<Rightarrow> Inr (round_result r))
   \<and> predict db req \<noteq> Inl StoreUnavailable
   \<and> StoreUnavailable \<noteq> InvalidComputation"
proof (intro conjI)
  show "upsert_team_rating None team = Inl StoreUnavailable"
    by (simp add: upsert_team_rating_def)
  show "get_team_rating None name = Inl StoreUnavailable"
    by (simp add: get_team_rating_def)
  show "fetch_ratings None req = (1500, 1500)"
    by (simp add: fetch_ratings_def)
  show "predict None req =
      (case predict_probs 1500 1500 req of Inl e \<Rightarrow> Inl e | Inr r \<Rightarrow> Inr (round_result r))"
    by (simp add: predict_def fetch_ratings_def)
  show "predict db req \<noteq> Inl StoreUnavailable"
    by (rule predict_not_store_unavailable)
  show "StoreUnavailable \<noteq> InvalidComputation"
    by simp
qed

text \<open>
  Claim C5 at a neutral venue with a lead of 4000 goals at minute 45 and no stored
  ratings: the request is answered with \<open>p_home = 1\<close>, \<open>p_away = 0\<close>, while the swapped
  request is not answered at all: \<^verbatim>\<open>math.exp\<close> overflows inside \<^verbatim>\<open>logistic\<close>.
\<close>

theorem predict_swap_overflow:
  "predict None
     \<lparr>home_team = ''A'', away_team = ''B'', home_score = 4000, away_score = 0, minute = 45,
      is_neutral = True\<rparr>
     = Inr \<lparr>p_home = 1, p_draw = 0, p_away = 0, effective_diff = 200000\<rparr>
   \<and> predict None
     \<lparr>home_team = ''B'', away_team = ''A'', home_score = 0, away_score = 4000, minute = 45,
      is_neutral = True\<rparr>
     = Inl OverflowError"
proof
  show "predict None
     \<lparr>home_team = ''A'', away_team = ''B'', home_score = 4000, away_score = 0, minute = 45,
      is_neutral = True\<rparr>
     = Inr \<lparr>p_home = 1, p_draw = 0, p_away = 0, effective_diff = 200000\<rparr>"
    using predict_lopsided [of "\<lparr>home_team = ''A'', away_team = ''B'', home_score = 4000,
      away_score = 0, minute = 45, is_neutral = True\<rparr>"] by simp
  show "predict None
     \<lparr>home_team = ''B'', away_team = ''A'', home_score = 0, away_score = 4000, minute = 45,
      is_neutral = True\<rparr>
     = Inl OverflowError"
    by (rule predict_overflow) simp_all
qed








lemma effective_diff_spec_swap:
  assumes "is_neutral req"
  shows "effective_diff_spec r_away r_home
      \<lparr>home_team = away_team req, away_team = home_team req, home_score = away_score req,
       away_score = home_score req, minute = minute req, is_neutral = is_neutral req\<rparr>
    = - effective_diff_spec r_home r_away req"
proof -
  define k where "k = 0.7 + 0.6 * sigmoid_spec (of_int (minute req - 45) * 0.025)"
  have "(r_away - r_home + of_int (away_score req - home_score req) * 50) * k
      = - ((r_home - r_away + of_int (home_score req - away_score req) * 50) * k)"
    by (simp add: algebra_simps)
  with assms show ?thesis
    unfolding effective_diff_spec_def k_def by simp
qed

lemma fetch_ratings_swap:
  "fetch_ratings db
      \<lparr>home_team = away_team req, away_team = home_team req, home_score = away_score req,
       away_score = home_score req, minute = minute req, is_neutral = is_neutral req\<rparr>
   = (snd (fetch_ratings db req), fst (fetch_ratings db req))"
  by (simp add: fetch_ratings_def Let_def split: option.splits)

text \<open>
  Venue symmetry where both requests are answered: at a neutral venue, swapping the teams
  and the scores swaps \<open>p_home\<close> and \<open>p_away\<close> and leaves \<open>p_draw\<close> as it is.
\<close>

lemma predict_swap:
  assumes n: "is_neutral req"
    and res: "predict db req = Inr res"
    and res': "predict db
      \<lparr>home_team = away_team req, away_team = home_team req, home_score = away_score req,
       away_score = home_score req, minute = minute req, is_neutral = is_neutral req\<rparr> = Inr res'"
  shows "p_home res' = p_away res \<and> p_away res' = p_home res \<and> p_draw res' = p_draw res"
proof -
  let ?req' = "\<lparr>home_team = away_team req, away_team = home_team req,
    home_score = away_score req, away_score = home_score req, minute = minute req,
    is_neutral = is_neutral req\<rparr>"
  define rh where "rh = fst (fetch_ratings db req)"
  define ra where "ra = snd (fetch_ratings db req)"
  define ed where "ed = effective_diff_spec rh ra req"
  from res obtain r where r: "predict_probs rh ra req = Inr r" and e: "res = round_result r"
    unfolding rh_def ra_def by (rule predict_Inr)
  from res' obtain r' where r': "predict_probs ra rh ?req' = Inr r'" and e': "res' = round_result r'"
    unfolding rh_def ra_def by (rule predict_Inr [where db = db and req = "?req'"])
      (simp add: fetch_ratings_swap)
  have ed': "effective_diff_spec ra rh ?req' = - ed"
    unfolding ed_def using n by (rule effective_diff_spec_swap)
  have pd: "p_draw_spec (- ed) ?req' = p_draw_spec ed req" by (simp add: p_draw_spec_def)
  have s: "sigmoid_spec (- ed / 400 * ln 10) = 1 - sigmoid_spec (ed / 400 * ln 10)"
    using sigmoid_spec_neg [of "ed / 400 * ln 10"] by simp
  note c = predict_probs_closed [OF r, folded ed_def]
  note c' = predict_probs_closed [OF r', unfolded ed' pd s]
  show ?thesis by (simp add: e e' round_result_def c c')
qed

section \<open>The score lead\<close>





section \<open>Rounding to double precision and the draw probability\<close>

lemma round_half_even_cases:
  "y - of_int \<lfloor>y\<rfloor> < 1 / 2 \<Longrightarrow> round_half_even y = \<lfloor>y\<rfloor>"
  "1 / 2 < y - of_int \<lfloor>y\<rfloor> \<Longrightarrow> round_half_even y = \<lfloor>y\<rfloor> + 1"
  "y - of_int \<lfloor>y\<rfloor> = 1 / 2 \<Longrightarrow> even \<lfloor>y\<rfloor> \<Longrightarrow> round_half_even y = \<lfloor>y\<rfloor>"
  "y - of_int \<lfloor>y\<rfloor> = 1 / 2 \<Longrightarrow> odd \<lfloor>y\<rfloor> \<Longrightarrow> round_half_even y = \<lfloor>y\<rfloor> + 1"
  by (simp_all add: round_half_even_def Let_def)

lemma round_half_even_minus: "round_half_even (- y) = - round_half_even y"
proof (cases "y = of_int \<lfloor>y\<rfloor>")
  case True
  then have "- y = of_int (- \<lfloor>y\<rfloor>)" by simp
  then have "round_half_even (- y) = - \<lfloor>y\<rfloor>" by (simp only: round_half_even_of_int)
  moreover from True have "round_half_even y = \<lfloor>y\<rfloor>"
    by (metis round_half_even_of_int)
  ultimately show ?thesis by simp
next
  case False
  define f where "f = \<lfloor>y\<rfloor>"
  have lo: "of_int f < y" using False unfolding f_def by linarith
  have hi: "y < of_int f + 1" unfolding f_def by linarith
  have f': "\<lfloor>- y\<rfloor> = - f - 1"
    by (rule floor_unique) (use lo hi in simp_all)
  have d': "- y - of_int \<lfloor>- y\<rfloor> = 1 - (y - of_int f)" unfolding f' by simp
  consider "y - of_int f < 1 / 2" | "1 / 2 < y - of_int f" | "y - of_int f = 1 / 2" "even f"
    | "y - of_int f = 1 / 2" "odd f" by linarith
  then show ?thesis
  proof cases
    case 1
    then have "round_half_even y = f" unfolding f_def by (rule round_half_even_cases(1))
    moreover from 1 d' have "1 / 2 < - y - of_int \<lfloor>- y\<rfloor>" by linarith
    then have "round_half_even (- y) = \<lfloor>- y\<rfloor> + 1" by (rule round_half_even_cases(2))
    ultimately show ?thesis unfolding f' by simp
  next
    case 2
    then have "round_half_even y = f + 1" unfolding f_def by (rule round_half_even_cases(2))
    moreover from 2 d' have "- y - of_int \<lfloor>- y\<rfloor> < 1 / 2" by linarith
    then have "round_half_even (- y) = \<lfloor>- y\<rfloor>" by (rule round_half_even_cases(1))
    ultimately show ?thesis unfolding f' by simp
  next
    case 3
    then have "round_half_even y = f" unfolding f_def by (intro round_half_even_cases(3))
    moreover from 3 d' have "- y - of_int \<lfloor>- y\<rfloor> = 1 / 2" by linarith
    moreover from 3 have "odd \<lfloor>- y\<rfloor>" unfolding f' by simp
    ultimately have "round_half_even (- y) = \<lfloor>- y\<rfloor> + 1" "round_half_even y = f"
      by (simp_all add: round_half_even_cases(4))
    then show ?thesis unfolding f' by simp
  next
    case 4
    then have "round_half_even y = f + 1" unfolding f_def by (intro round_half_even_cases(4))
    moreover from 4 d' have "- y - of_int \<lfloor>- y\<rfloor> = 1 / 2" by linarith
    moreover from 4 have "even \<lfloor>- y\<rfloor>" unfolding f' by simp
    ultimately have "round_half_even (- y) = \<lfloor>- y\<rfloor>" "round_half_even y = f + 1"
      by (simp_all add: round_half_even_cases(3))
    then show ?thesis unfolding f' by simp
  qed
qed

lemma fl_zero [simp]: "fl 0 = 0"
  by (simp add: fl_def)

lemma fl_minus: "fl (- x) = - fl x"
  by (simp add: fl_def Let_def round_half_even_minus)

lemma fl_pos_unfold:
  assumes "0 < x" "2 powr (of_int e) \<le> x" "x < 2 powr (of_int e + 1)"
  shows "fl x = of_int (round_half_even (x / 2 powr (of_int e - 52))) * 2 powr (of_int e - 52)"
proof -
  have "\<lfloor>log 2 x\<rfloor> = e"
    using assms by (simp add: floor_log_eq_powr_iff)
  with assms(1) show ?thesis by (simp add: fl_def Let_def)
qed

lemma fl_pos_binade:
  assumes "0 < x"
  defines "e \<equiv> \<lfloor>log 2 x\<rfloor>"
  shows "2 powr (of_int e) \<le> x" "x < 2 powr (of_int e + 1)"
  using assms floor_log_eq_powr_iff [of x 2 e] by simp_all

lemma powr_52_shift: "(2::real) powr (of_int e) = 2 ^ 52 * 2 powr (of_int e - 52)"
proof -
  have "(of_int e :: real) = 52 + (of_int e - 52)" by simp
  then have "(2::real) powr (of_int e) = 2 powr (52 + (of_int e - 52))" by (rule arg_cong)
  also have "\<dots> = 2 powr 52 * 2 powr (of_int e - 52)" by (rule powr_add)
  finally show ?thesis by simp
qed

lemma powr_53_shift: "(2::real) powr (of_int e + 1) = 2 ^ 53 * 2 powr (of_int e - 52)"
proof -
  have "(of_int e + 1 :: real) = 53 + (of_int e - 52)" by simp
  then have "(2::real) powr (of_int e + 1) = 2 powr (53 + (of_int e - 52))" by (rule arg_cong)
  also have "\<dots> = 2 powr 53 * 2 powr (of_int e - 52)" by (rule powr_add)
  finally show ?thesis by simp
qed

lemma fl_pos_bounds:
  assumes "0 < x" "2 powr (of_int e) \<le> x" "x < 2 powr (of_int e + 1)"
  shows "2 powr (of_int e) \<le> fl x" "fl x \<le> 2 powr (of_int e + 1)"
proof -
  define u :: real where "u = 2 powr (of_int e - 52)"
  have u: "0 < u" by (simp add: u_def)
  have lo: "of_int (2 ^ 52) \<le> x / u"
    using assms(2) u unfolding powr_52_shift u_def [symmetric] by (simp add: field_simps)
  have hi: "x / u \<le> of_int (2 ^ 53)"
    using assms(3) u unfolding powr_53_shift u_def [symmetric] by (simp add: field_simps)
  from round_half_even_mono [OF lo] have rlo: "2 ^ 52 \<le> round_half_even (x / u)"
    by (simp only: round_half_even_of_int)
  from round_half_even_mono [OF hi] have rhi: "round_half_even (x / u) \<le> 2 ^ 53"
    by (simp only: round_half_even_of_int)
  have fx: "fl x = of_int (round_half_even (x / u)) * u"
    unfolding u_def using assms by (rule fl_pos_unfold)
  have "(of_int (2 ^ 52) :: real) \<le> of_int (round_half_even (x / u))"
    using rlo by (simp only: of_int_le_iff)
  then have "of_int (2 ^ 52) * u \<le> of_int (round_half_even (x / u)) * u"
    using u by (intro mult_right_mono) simp_all
  then show "2 powr (of_int e) \<le> fl x"
    unfolding fx powr_52_shift u_def [symmetric] by simp
  have "(of_int (round_half_even (x / u)) :: real) \<le> of_int (2 ^ 53)"
    using rhi by (simp only: of_int_le_iff)
  then have "of_int (round_half_even (x / u)) * u \<le> of_int (2 ^ 53) * u"
    using u by (intro mult_right_mono) simp_all
  then show "fl x \<le> 2 powr (of_int e + 1)"
    unfolding fx powr_53_shift u_def [symmetric] by simp
qed

lemma fl_pos: "0 < x \<Longrightarrow> 0 < fl x"
proof -
  assume x: "0 < x"
  note b = fl_pos_binade [OF x]
  from fl_pos_bounds(1) [OF x b] have "2 powr (of_int \<lfloor>log 2 x\<rfloor>) \<le> fl x" .
  moreover have "(0::real) < 2 powr (of_int \<lfloor>log 2 x\<rfloor>)" by simp
  ultimately show ?thesis by linarith
qed

lemma fl_mono_pos:
  assumes "0 < x" "x \<le> y"
  shows "fl x \<le> fl y"
proof -
  define e where "e = \<lfloor>log 2 x\<rfloor>"
  define e' where "e' = \<lfloor>log 2 y\<rfloor>"
  from assms have y: "0 < y" by simp
  note bx = fl_pos_binade [OF assms(1), folded e_def]
  note by' = fl_pos_binade [OF y, folded e'_def]
  have "log 2 x \<le> log 2 y" using assms by simp
  then have ee: "e \<le> e'" unfolding e_def e'_def by (rule floor_mono)
  show ?thesis
  proof (cases "e = e'")
    case True
    define u :: real where "u = 2 powr (of_int e - 52)"
    have u: "0 < u" by (simp add: u_def)
    have fx: "fl x = of_int (round_half_even (x / u)) * u"
      unfolding u_def using assms(1) bx by (rule fl_pos_unfold)
    have fy: "fl y = of_int (round_half_even (y / u)) * u"
      unfolding u_def True using y by' by (rule fl_pos_unfold)
    have "x / u \<le> y / u" using assms(2) u by (simp add: divide_right_mono)
    then have "round_half_even (x / u) \<le> round_half_even (y / u)" by (rule round_half_even_mono)
    then have "(of_int (round_half_even (x / u)) :: real) \<le> of_int (round_half_even (y / u))"
      by (simp only: of_int_le_iff)
    then show ?thesis unfolding fx fy using u by (intro mult_right_mono) simp_all
  next
    case False
    with ee have "e + 1 \<le> e'" by simp
    then have "(of_int e + 1 :: real) \<le> of_int e'" by (metis of_int_1 of_int_add of_int_le_iff)
    then have "(2::real) powr (of_int e + 1) \<le> 2 powr (of_int e')" by simp
    with fl_pos_bounds(2) [OF assms(1) bx] fl_pos_bounds(1) [OF y by'] show ?thesis by linarith
  qed
qed

lemma fl_mono: "x \<le> y \<Longrightarrow> fl x \<le> fl y"
proof -
  assume xy: "x \<le> y"
  consider "0 < x" | "x = 0" "y = 0" | "x = 0" "0 < y" | "x < 0" "0 \<le> y" | "x < 0" "y < 0"
    using xy by linarith
  then show ?thesis
  proof cases
    case 1
    then show ?thesis using xy by (rule fl_mono_pos)
  next
    case 2
    then show ?thesis by simp
  next
    case 3
    then show ?thesis using fl_pos [of y] by simp
  next
    case 4
    then have "0 < fl (- x)" by (intro fl_pos) simp
    then have "fl x < 0" by (simp add: fl_minus)
    moreover have "0 \<le> fl y"
    proof (cases "y = 0")
      case True
      then show ?thesis by simp
    next
      case False
      with 4 have "0 < y" by simp
      then show ?thesis using fl_pos [of y] by simp
    qed
    ultimately show ?thesis by linarith
  next
    case 5
    then have "0 < - y" "- y \<le> - x" using xy by simp_all
    then have "fl (- y) \<le> fl (- x)" by (rule fl_mono_pos)
    then show ?thesis by (simp add: fl_minus)
  qed
qed

lemma fl_eval:
  assumes "0 < x" "u = 2 powr (of_int e - 52)" "2 ^ 52 * u \<le> x" "x < 2 ^ 53 * u"
  shows "fl x = of_int (round_half_even (x / u)) * u"
proof -
  have a: "2 powr (of_int e) \<le> x" using assms(3) unfolding powr_52_shift assms(2) .
  have b: "x < 2 powr (of_int e + 1)" using assms(4) unfolding powr_53_shift assms(2) .
  show ?thesis unfolding assms(2) using assms(1) a b by (rule fl_pos_unfold)
qed

lemma u_m4: "(1 / 2 ^ 56 :: real) = 2 powr (of_int (- 4) - 52)"
  by (simp add: powr_minus_divide)

lemma u_0: "(1 / 2 ^ 52 :: real) = 2 powr (of_int 0 - 52)"
  by (simp add: powr_minus_divide)

lemma u_9: "(1 / 2 ^ 43 :: real) = 2 powr (of_int 9 - 52)"
  by (simp add: powr_minus_divide)

lemma u_m53: "(1 / 2 ^ 105 :: real) = 2 powr (of_int (- 53) - 52)"
  by (simp add: powr_minus_divide)

lemma fl_exact:
  assumes u: "u = (2::real) powr (of_int e - 52)" and m: "2 ^ 52 \<le> m" "m < 2 ^ 53"
  shows "fl (of_int m * u) = of_int m * u"
proof -
  have up: "0 < u" unfolding u by simp
  from m have mr: "(2 ^ 52 :: real) \<le> of_int m" "(of_int m :: real) < 2 ^ 53"
    by (metis of_int_le_iff of_int_numeral of_int_power, metis of_int_less_iff of_int_numeral of_int_power)
  have z: "(0::real) < 2 ^ 52" by simp
  from z mr(1) have mp: "(0::real) < of_int m" by (rule less_le_trans)
  have x: "0 < of_int m * u" using mp up by (rule mult_pos_pos)
  have lo: "2 ^ 52 * u \<le> of_int m * u" using mr(1) up by (intro mult_right_mono) simp_all
  have hi: "of_int m * u < 2 ^ 53 * u" using mr(2) up by (intro mult_strict_right_mono) simp_all
  have "of_int m * u / u = of_int m" using up by simp
  then have "round_half_even (of_int m * u / u) = m" by (simp only: round_half_even_of_int)
  with fl_eval [OF x u lo hi] show ?thesis by simp
qed

lemma fl_one: "fl 1 = 1"
proof -
  have "fl (of_int 4503599627370496 * (1 / 2 ^ 52)) = of_int 4503599627370496 * (1 / 2 ^ 52)"
    by (rule fl_exact [OF u_0]) simp_all
  then show ?thesis by simp
qed

lemma fl_tenth: "fl (1 / 10) = 3602879701896397 / 2 ^ 55"
proof -
  have "\<bar>(1 / 10) / (1 / 2 ^ 56) - of_int 7205759403792794\<bar> < (1 / 2 :: real)" by simp
  then have "round_half_even ((1 / 10) / (1 / 2 ^ 56)) = 7205759403792794"
    by (rule round_half_even_near)
  with fl_eval [of "1 / 10" "1 / 2 ^ 56" "- 4", OF _ u_m4] show ?thesis by simp
qed

lemma u_m5: "(1 / 2 ^ 57 :: real) = 2 powr (of_int (- 5) - 52)"
  by (simp add: powr_minus_divide)

lemma u_m3: "(1 / 2 ^ 55 :: real) = 2 powr (of_int (- 3) - 52)"
  by (simp add: powr_minus_divide)

lemma u_m2: "(1 / 2 ^ 54 :: real) = 2 powr (of_int (- 2) - 52)"
  by (simp add: powr_minus_divide)

lemma u_m1: "(1 / 2 ^ 53 :: real) = 2 powr (of_int (- 1) - 52)"
  by (simp add: powr_minus_divide)

lemma u_5: "(1 / 2 ^ 47 :: real) = 2 powr (of_int 5 - 52)"
  by (simp add: powr_minus_divide)

lemma fl_fifth: "fl (2 / 10) = 3602879701896397 / 2 ^ 54"
proof -
  have "\<bar>(2 / 10) / (1 / 2 ^ 55) - of_int 7205759403792794\<bar> < (1 / 2 :: real)" by simp
  then have "round_half_even ((2 / 10) / (1 / 2 ^ 55)) = 7205759403792794"
    by (rule round_half_even_near)
  with fl_eval [of "2 / 10" "1 / 2 ^ 55" "- 3", OF _ u_m3] show ?thesis by simp
qed

lemma fl_twentieth: "fl (5 / 100) = 3602879701896397 / 2 ^ 56"
proof -
  have "\<bar>(5 / 100) / (1 / 2 ^ 57) - of_int 7205759403792794\<bar> < (1 / 2 :: real)" by simp
  then have "round_half_even ((5 / 100) / (1 / 2 ^ 57)) = 7205759403792794"
    by (rule round_half_even_near)
  with fl_eval [of "5 / 100" "1 / 2 ^ 57" "- 5", OF _ u_m5] show ?thesis by simp
qed

lemma fl_cap: "fl (55 / 100) = 2476979795053773 / 2 ^ 52"
proof -
  have "\<bar>(55 / 100) / (1 / 2 ^ 53) - of_int 4953959590107546\<bar> < (1 / 2 :: real)" by simp
  then have "round_half_even ((55 / 100) / (1 / 2 ^ 53)) = 4953959590107546"
    by (rule round_half_even_near)
  with fl_eval [of "55 / 100" "1 / 2 ^ 53" "- 1", OF _ u_m1] show ?thesis by simp
qed

lemma fl_740: "fl 740 = 740"
proof -
  have "fl (of_int 6509108836433920 * (1 / 2 ^ 43)) = of_int 6509108836433920 * (1 / 2 ^ 43)"
    by (rule fl_exact [OF u_9]) simp_all
  then show ?thesis by simp
qed

lemma fl_37: "fl (740 * (3602879701896397 / 2 ^ 56)) = 37"
proof -
  have "\<bar>(740 * (3602879701896397 / 2 ^ 56)) / (1 / 2 ^ 47) - of_int 5207287069147136\<bar>
      < (1 / 2 :: real)" by simp
  then have "round_half_even ((740 * (3602879701896397 / 2 ^ 56)) / (1 / 2 ^ 47))
      = 5207287069147136"
    by (rule round_half_even_near)
  with fl_eval [of "740 * (3602879701896397 / 2 ^ 56)" "1 / 2 ^ 47" 5, OF _ u_5]
  show ?thesis by simp
qed

lemma fl_half_ulp: "fl (1 / 2 ^ 53) = 1 / 2 ^ 53"
proof -
  have "fl (of_int 4503599627370496 * (1 / 2 ^ 105)) = of_int 4503599627370496 * (1 / 2 ^ 105)"
    by (rule fl_exact [OF u_m53]) simp_all
  then show ?thesis by simp
qed

lemma fl_one_plus_half_ulp: "fl (1 + 1 / 2 ^ 53) = 1"
proof -
  have "round_half_even (9007199254740993 / 2) = 4503599627370496"
    by (simp add: round_half_even_def)
  then have "round_half_even ((1 + 1 / 2 ^ 53) / (1 / 2 ^ 52)) = 4503599627370496" by simp
  with fl_eval [of "1 + 1 / 2 ^ 53" "1 / 2 ^ 52" 0, OF _ u_0] show ?thesis by simp
qed

lemma fl_fifth_exact: "fl (3602879701896397 / 2 ^ 54) = 3602879701896397 / 2 ^ 54"
proof -
  have "fl (of_int 7205759403792794 * (1 / 2 ^ 55)) = of_int 7205759403792794 * (1 / 2 ^ 55)"
    by (rule fl_exact [OF u_m3]) simp_all
  then show ?thesis by simp
qed

lemma fl_boost_max:
  "fl (3602879701896397 / 2 ^ 55 + 3602879701896397 / 2 ^ 54) = 1351079888211149 / 2 ^ 52"
proof -
  have "round_half_even (10808639105689191 / 2) = 5404319552844596"
    by (simp add: round_half_even_def)
  then have "round_half_even
      ((3602879701896397 / 2 ^ 55 + 3602879701896397 / 2 ^ 54) / (1 / 2 ^ 54))
      = 5404319552844596" by simp
  with fl_eval [of "3602879701896397 / 2 ^ 55 + 3602879701896397 / 2 ^ 54" "1 / 2 ^ 54" "- 2",
      OF _ u_m2]
  show ?thesis by simp
qed

lemma fl_boost_max_exact: "fl (1351079888211149 / 2 ^ 52) = 1351079888211149 / 2 ^ 52"
proof -
  have "fl (of_int 5404319552844596 * (1 / 2 ^ 54)) = of_int 5404319552844596 * (1 / 2 ^ 54)"
    by (rule fl_exact [OF u_m2]) simp_all
  then show ?thesis by simp
qed

lemma fl_nonneg: "0 \<le> x \<Longrightarrow> 0 \<le> fl x"
  using fl_mono [of 0 x] by simp

lemma fl_le_one: "x \<le> 1 \<Longrightarrow> fl x \<le> 1"
  using fl_mono [of x 1] by (simp add: fl_one)

lemma fl_ge_one: "1 \<le> x \<Longrightarrow> 1 \<le> fl x"
  using fl_mono [of 1 x] by (simp add: fl_one)

lemma exp_37: "exp (- 37 :: real) \<le> 1 / 2 ^ 53"
proof -
  define q :: real where "q = 106945 / 89888"
  have "q \<le> exp (37 / 212)"
    using exp_lower_Taylor_quadratic [of "37 / 212 :: real"]
    by (simp add: q_def power2_eq_square)
  moreover have q0: "0 \<le> q" by (simp add: q_def)
  ultimately have "q ^ 212 \<le> exp (37 / 212) ^ 212" by (intro power_mono)
  also have "\<dots> = exp (of_nat 212 * (37 / 212 :: real))" by (rule exp_of_nat_mult [symmetric])
  also have "\<dots> = exp 37" by simp
  finally have a: "q ^ 212 \<le> exp 37" .
  have "2 \<le> q ^ 4" by (simp add: q_def power_divide)
  then have "2 ^ 53 \<le> (q ^ 4) ^ 53" by (intro power_mono) simp_all
  also have "\<dots> = q ^ 212" by (simp only: power_mult [symmetric]) simp
  finally have "(2 :: real) ^ 53 \<le> exp 37" using a by (rule order_trans)
  then have "1 / exp (37 :: real) \<le> 1 / 2 ^ 53" by (intro divide_left_mono) simp_all
  then show ?thesis by (simp add: exp_minus inverse_eq_divide)
qed

lemma py_exp_fl_nonpos:
  assumes "x \<le> 0"
  shows "\<exists>y. py_exp_fl x = Inr y \<and> 0 \<le> y \<and> y \<le> 1 \<and> y = fl (exp x)"
proof -
  from assms have e: "exp x \<le> 1" by simp
  with DBL_MAX_ge_1 have "\<not> DBL_MAX < exp x" by linarith
  then have "py_exp_fl x = Inr (fl (exp x))" by (simp add: py_exp_fl_def)
  moreover have "0 \<le> fl (exp x)" by (rule fl_nonneg) simp
  moreover have "fl (exp x) \<le> 1" using e by (rule fl_le_one)
  ultimately show ?thesis by simp
qed

lemma py_exp_fl_Inr: "py_exp_fl x = Inr y \<Longrightarrow> 0 \<le> y \<and> y = fl (exp x)"
  by (auto simp: py_exp_fl_def fl_nonneg split: if_splits)

lemma logistic_fl_Inr:
  assumes "logistic_fl x = Inr l"
  shows "0 \<le> l" "l \<le> 1"
proof -
  from assms obtain y where y: "py_exp_fl (- x) = Inr y" and l: "l = fl (1 / fl (1 + y))"
    by (auto simp: logistic_fl_def split: sum.splits)
  from py_exp_fl_Inr [OF y] have "0 \<le> y" by simp
  then have "1 \<le> 1 + y" by simp
  then have d: "1 \<le> fl (1 + y)" by (rule fl_ge_one)
  then have "1 / fl (1 + y) \<le> 1" by simp
  then show "l \<le> 1" unfolding l by (rule fl_le_one)
  from d have "0 \<le> 1 / fl (1 + y)" by simp
  then show "0 \<le> l" unfolding l by (rule fl_nonneg)
qed

lemma late_draw_boost_fl:
  assumes "0 \<le> l" "l \<le> 1"
  shows "0 \<le> fl (fl 0.1 + fl (fl 0.2 * l))"
    "fl (fl 0.1 + fl (fl 0.2 * l)) \<le> 1351079888211149 / 2 ^ 52"
proof -
  have d1: "fl 0.1 = 3602879701896397 / 2 ^ 55" using fl_tenth by simp
  have d2: "fl 0.2 = 3602879701896397 / 2 ^ 54" using fl_fifth by simp
  have "(3602879701896397 / 2 ^ 54) * l \<le> (3602879701896397 / 2 ^ 54) * 1"
    using assms(2) by (intro mult_left_mono) simp_all
  then have "fl ((3602879701896397 / 2 ^ 54) * l) \<le> fl (3602879701896397 / 2 ^ 54)"
    using fl_mono by simp
  then have a: "fl ((3602879701896397 / 2 ^ 54) * l) \<le> 3602879701896397 / 2 ^ 54"
    by (simp only: fl_fifth_exact)
  have b: "0 \<le> fl ((3602879701896397 / 2 ^ 54) * l)"
    using assms(1) by (intro fl_nonneg mult_nonneg_nonneg) simp_all
  from a have "3602879701896397 / 2 ^ 55 + fl ((3602879701896397 / 2 ^ 54) * l)
      \<le> 3602879701896397 / 2 ^ 55 + 3602879701896397 / 2 ^ 54" by simp
  then have "fl (3602879701896397 / 2 ^ 55 + fl ((3602879701896397 / 2 ^ 54) * l))
      \<le> fl (3602879701896397 / 2 ^ 55 + 3602879701896397 / 2 ^ 54)" by (rule fl_mono)
  then show "fl (fl 0.1 + fl (fl 0.2 * l)) \<le> 1351079888211149 / 2 ^ 52"
    unfolding d1 d2 by (simp only: fl_boost_max)
  from b have "0 \<le> 3602879701896397 / 2 ^ 55 + fl ((3602879701896397 / 2 ^ 54) * l)" by simp
  then show "0 \<le> fl (fl 0.1 + fl (fl 0.2 * l))" unfolding d1 d2 by (rule fl_nonneg)
qed

lemma predict_draw_product_fl_Inr:
  assumes "predict_draw_product_fl ed req = Inr c"
  shows "0 \<le> c" "c \<le> 1351079888211149 / 2 ^ 52"
proof -
  from assms obtain closeness l where
    cl: "py_exp_fl (fl (- \<bar>ed\<bar> / 200)) = Inr closeness" and
    l: "logistic_fl (fl (fl (of_int (minute req - 60)) * fl 0.05)) = Inr l" and
    c: "c = fl (closeness * fl (fl 0.1 + fl (fl 0.2 * l)))"
    by (auto simp: predict_draw_product_fl_def Let_def split: sum.splits)
  have "fl (- \<bar>ed\<bar> / 200) \<le> fl 0" by (rule fl_mono) simp
  then have "fl (- \<bar>ed\<bar> / 200) \<le> 0" by simp
  from py_exp_fl_nonpos [OF this] cl have cb: "0 \<le> closeness" "closeness \<le> 1" by auto
  note lb = logistic_fl_Inr [OF l]
  note bb = late_draw_boost_fl [OF lb]
  have "closeness * fl (fl 0.1 + fl (fl 0.2 * l)) \<le> 1 * (1351079888211149 / 2 ^ 52)"
    using cb bb by (intro mult_mono) simp_all
  then have "c \<le> fl (1 * (1351079888211149 / 2 ^ 52))" unfolding c by (rule fl_mono)
  then show "c \<le> 1351079888211149 / 2 ^ 52" by (simp only: mult_1 fl_boost_max_exact)
  have "0 \<le> closeness * fl (fl 0.1 + fl (fl 0.2 * l))"
    using cb bb by (intro mult_nonneg_nonneg)
  then show "0 \<le> c" unfolding c by (rule fl_nonneg)
qed

lemma logistic_fl_37: "logistic_fl 37 = Inr 1"
proof -
  from py_exp_fl_nonpos [of "- 37"] obtain y where
    y: "py_exp_fl (- 37) = Inr y" "0 \<le> y" "y = fl (exp (- 37))" by auto
  have "fl (exp (- 37)) \<le> fl (1 / 2 ^ 53)" using exp_37 by (rule fl_mono)
  then have yh: "y \<le> 1 / 2 ^ 53" unfolding y(3) by (simp only: fl_half_ulp)
  have "1 \<le> fl (1 + y)" using y(2) by (intro fl_ge_one) simp
  moreover have "fl (1 + y) \<le> fl (1 + 1 / 2 ^ 53)" using yh by (intro fl_mono) simp
  then have "fl (1 + y) \<le> 1" by (simp only: fl_one_plus_half_ulp)
  ultimately have "fl (1 + y) = 1" by (rule antisym [rotated])
  with y(1) show ?thesis by (simp add: logistic_fl_def fl_one)
qed

lemma predict_p_draw_fl_800:
  "predict_p_draw_fl 0
     \<lparr>home_team = ''A'', away_team = ''B'', home_score = 0, away_score = 0, minute = 800,
      is_neutral = True\<rparr> = Inr (1351079888211149 / 2 ^ 52)"
proof -
  let ?req = "\<lparr>home_team = ''A'', away_team = ''B'', home_score = 0, away_score = 0,
    minute = 800, is_neutral = True\<rparr>"
  have d005: "fl 0.05 = 3602879701896397 / 2 ^ 56"
  proof -
    have "(0.05 :: real) = 5 / 100" by simp
    then show ?thesis by (simp only: fl_twentieth)
  qed
  have d01: "fl 0.1 = 3602879701896397 / 2 ^ 55"
  proof -
    have "(0.1 :: real) = 1 / 10" by simp
    then show ?thesis by (simp only: fl_tenth)
  qed
  have d02: "fl 0.2 = 3602879701896397 / 2 ^ 54"
  proof -
    have "(0.2 :: real) = 2 / 10" by simp
    then show ?thesis by (simp only: fl_fifth)
  qed
  have cap: "fl 0.55 = 2476979795053773 / 2 ^ 52"
  proof -
    have "(0.55 :: real) = 55 / 100" by simp
    then show ?thesis by (simp only: fl_cap)
  qed
  have a1: "fl (- \<bar>0 :: real\<bar> / 200) = 0" by simp
  have cl: "py_exp_fl 0 = Inr 1"
    using DBL_MAX_ge_1 by (simp add: py_exp_fl_def fl_one)
  have a2: "fl (of_int (minute ?req - 60)) = 740" by (simp add: fl_740)
  have arg: "fl (740 * fl 0.05) = 37" unfolding d005 by (rule fl_37)
  have late: "fl (fl 0.1 + fl (fl 0.2 * 1)) = 1351079888211149 / 2 ^ 52"
    unfolding d01 d02 by (simp only: mult_1_right fl_fifth_exact fl_boost_max)
  have prod: "predict_draw_product_fl 0 ?req = Inr (1351079888211149 / 2 ^ 52)"
    by (simp only: predict_draw_product_fl_def a1 cl sum.case a2 arg logistic_fl_37 Let_def
        late mult_1 fl_boost_max_exact)
  have "min (fl 0.55) (1351079888211149 / 2 ^ 52) = (1351079888211149 / 2 ^ 52 :: real)"
    unfolding cap by simp
  then show ?thesis by (simp only: predict_p_draw_fl_def prod sum.case)
qed

text \<open>
  Claim C10, as stated, fails in double precision: for a level match (effective difference
  0) at minute 800 the logistic is exactly 1, the boost is the double \<open>0.1 + 0.2\<close>, which
  is \<open>0.30000000000000004\<close>, and the \<open>p_draw\<close> of line 120 is that double, not
  below 0.3.
\<close>

theorem p_draw_fl_above_three_tenths_counterexample:
  "predict_p_draw_fl 0
     \<lparr>home_team = ''A'', away_team = ''B'', home_score = 0, away_score = 0, minute = 800,
      is_neutral = True\<rparr> = Inr (1351079888211149 / 2 ^ 52)
   \<and> \<not> (1351079888211149 / 2 ^ 52 < (3 / 10 :: real))"
  by (simp add: predict_p_draw_fl_800)

text \<open>
  Claim C10, amended. In double precision, the \<open>p_draw\<close> of line 120 (before the
  renormalisation and the rounding) is at most the double \<open>0.1 + 0.2 = 0.30000000000000004\<close>,
  hence below 0.55: the product of closeness and late-draw boost never reaches the cap, and
  the \<^verbatim>\<open>min\<close> always selects the product.
\<close>

theorem predict_p_draw_fl_below_cap:
  assumes "predict_p_draw_fl ed req = Inr pd"
  shows "pd \<le> 1351079888211149 / 2 ^ 52 \<and> pd < 55 / 100
    \<and> (\<exists>c. predict_draw_product_fl ed req = Inr c \<and> c < fl 0.55
           \<and> min (fl 0.55) c = c \<and> pd = c)"
proof -
  from assms obtain c where c: "predict_draw_product_fl ed req = Inr c"
    and pd: "pd = min (fl 0.55) c"
    by (auto simp: predict_p_draw_fl_def split: sum.splits)
  note b = predict_draw_product_fl_Inr [OF c]
  have cap: "fl 0.55 = 2476979795053773 / 2 ^ 52" using fl_cap by simp
  from b(2) have lt: "c < fl 0.55" unfolding cap by simp
  then have m: "min (fl 0.55) c = c" by simp
  from b(2) have "c < 55 / 100" by simp
  with b c lt m pd show ?thesis by simp
qed

theorem predict_p_draw_fl_below_cap_witness:
  "(1351079888211149 / 2 ^ 52 :: real) \<le> 1351079888211149 / 2 ^ 52
   \<and> (1351079888211149 / 2 ^ 52 :: real) < 55 / 100
   \<and> (\<exists>c. predict_draw_product_fl 0
          \<lparr>home_team = ''A'', away_team = ''B'', home_score = 0, away_score = 0, minute = 800,
           is_neutral = True\<rparr> = Inr c
        \<and> c < fl 0.55 \<and> min (fl 0.55) c = c \<and> 1351079888211149 / 2 ^ 52 = c)"
  using predict_p_draw_fl_below_cap [OF predict_p_draw_fl_800] .

end
